theory Spec2Isabelle
  imports Complex_Main
begin

section \<open>The entity store of \<^verbatim>\<open>database/schema.sql\<close>\<close>

text \<open>
  The program is the D1 (SQLite) schema with its triggers, and the worker's
  \<^verbatim>\<open>addReview\<close> and \<^verbatim>\<open>getRecipeReviews\<close> handlers. A table is the list of
  its rows, a row is a record of the columns the constraints and triggers read or
  write, and a nullable column is an \<open>option\<close> (\<open>None\<close> is SQL \<open>NULL\<close>).
  Columns that no constraint, trigger or handler of the claims touches
  (\<^verbatim>\<open>image_url\<close>, \<^verbatim>\<open>prep_time\<close>, the nutrition and \<^verbatim>\<open>meta_*\<close> columns, ...) are left out.

  A statement is a function from the store to \<open>sql_error + db\<close>: a statement
  that fails is rolled back as a whole (SQLite's default \<^verbatim>\<open>ABORT\<close>), so the store
  after \<open>Inl e\<close> is the store before. The engine settings are those the schema is
  written for: foreign keys are enforced (as D1 does), and a trigger that is
  already running is not fired again by its own statements (SQLite's default,
  \<^verbatim>\<open>recursive_triggers\<close> off); a trigger does fire other triggers.

  \<^verbatim>\<open>CURRENT_TIMESTAMP\<close> is a parameter \<open>now\<close> of every statement, a number of
  seconds. \<^verbatim>\<open>REAL\<close> values are exact rationals.
\<close>

type_synonym timestamp = nat

datatype sql_error =
    NotNullViolation
  | UniqueViolation
  | ForeignKeyViolation
  | CheckViolation

record category =
  c_id :: int
  c_slug :: string
  c_name :: string
  c_parent_id :: "int option"
  c_recipe_count :: "int option"
  c_updated_at :: "timestamp option"

record recipe =
  r_id :: int
  r_slug :: string
  r_title :: string
  r_description :: "string option"
  r_ingredients :: string
  r_instructions :: string
  r_difficulty :: "string option"
  r_rating :: "rat option"
  r_review_count :: "int option"
  r_status :: "string option"
  r_tags :: "string option"
  r_updated_at :: "timestamp option"

record recipe_category =
  rc_id :: int
  rc_recipe_id :: int
  rc_category_id :: int

text \<open>
  \<^verbatim>\<open>reviews.rating\<close> is \<^verbatim>\<open>INTEGER NOT NULL CHECK(rating >= 1 AND rating <= 5)\<close> in
  a table that is not \<^verbatim>\<open>STRICT\<close>: the column's integer affinity stores a number
  with a fractional part as it is, and a text or blob value fails the check, so
  the stored values are the numbers from 1 to 5, a \<open>rat\<close>.
\<close>

record review =
  rv_id :: int
  rv_recipe_id :: int
  rv_reviewer_name :: string
  rv_reviewer_email :: "string option"
  rv_rating :: rat
  rv_title :: "string option"
  rv_comment :: "string option"
  rv_helpful_count :: "int option"
  rv_status :: "string option"
  rv_created_at :: "timestamp option"

record user_favorite =
  uf_id :: int
  uf_user_id :: string
  uf_recipe_id :: int

record search_index_row =
  si_id :: int
  si_recipe_id :: int
  si_search_text :: string
  si_created_at :: "timestamp option"

text \<open>
  The \<open>seq_\<close> fields are the rows of \<^verbatim>\<open>sqlite_sequence\<close>: every \<^verbatim>\<open>id\<close> is
  \<^verbatim>\<open>INTEGER PRIMARY KEY AUTOINCREMENT\<close>, so a new row's id is one more than the
  largest id the table has ever held.
\<close>

record db =
  categories :: "category list"
  recipes :: "recipe list"
  recipe_categories :: "recipe_category list"
  reviews :: "review list"
  user_favorites :: "user_favorite list"
  recipe_search_index :: "search_index_row list"
  seq_recipes :: int
  seq_recipe_categories :: int
  seq_reviews :: int
  seq_search_index :: int

definition next_rowid :: "int \<Rightarrow> int list \<Rightarrow> int" where
  "next_rowid seq ids = 1 + fold max ids seq"

definition bind_res :: "sql_error + 'a \<Rightarrow> ('a \<Rightarrow> sql_error + 'b) \<Rightarrow> sql_error + 'b" where
  "bind_res m f = (case m of Inl e \<Rightarrow> Inl e | Inr x \<Rightarrow> f x)"

subsection \<open>Categories and the recipe--category association\<close>

text \<open>\<^verbatim>\<open>SELECT COUNT(*) FROM recipe_categories WHERE category_id = cid\<close>\<close>

definition count_recipe_categories :: "db \<Rightarrow> int \<Rightarrow> int" where
  "count_recipe_categories d cid =
     int (length (filter (\<lambda>a. rc_category_id a = cid) (recipe_categories d)))"

text \<open>
  Trigger \<^verbatim>\<open>update_category_timestamp\<close>, \<^verbatim>\<open>AFTER UPDATE ON categories\<close>:
  \<^verbatim>\<open>UPDATE categories SET updated_at = CURRENT_TIMESTAMP WHERE id = NEW.id\<close>.
  Its own \<^verbatim>\<open>UPDATE\<close> does not fire it again.
\<close>

definition update_category_timestamp :: "db \<Rightarrow> category \<Rightarrow> timestamp \<Rightarrow> db" where
  "update_category_timestamp d new now =
     d\<lparr>categories :=
          map (\<lambda>c. if c_id c = c_id new then c\<lparr>c_updated_at := Some now\<rparr> else c)
              (categories d)\<rparr>"

text \<open>
  The \<^verbatim>\<open>AFTER UPDATE\<close> triggers of \<^verbatim>\<open>categories\<close>, fired for the row an
  \<^verbatim>\<open>UPDATE ... WHERE id = cid\<close> has changed (\<^verbatim>\<open>id\<close> is the primary key: at most one
  row; none when no row has that id).
\<close>

definition fire_after_update_categories :: "db \<Rightarrow> int \<Rightarrow> timestamp \<Rightarrow> db" where
  "fire_after_update_categories d cid now =
     (case find (\<lambda>c. c_id c = cid) (categories d) of
        None \<Rightarrow> d
      | Some new \<Rightarrow> update_category_timestamp d new now)"

text \<open>
  The body shared by the triggers \<^verbatim>\<open>update_category_recipe_count_insert\<close> and
  \<^verbatim>\<open>update_category_recipe_count_delete\<close>, with \<open>cid\<close> the \<^verbatim>\<open>NEW.category_id\<close>
  or \<^verbatim>\<open>OLD.category_id\<close>:
  \<^verbatim>\<open>UPDATE categories SET recipe_count = (SELECT COUNT( * ) FROM recipe_categories
     WHERE category_id = cid) WHERE id = cid\<close>.
\<close>

definition update_category_recipe_count :: "db \<Rightarrow> int \<Rightarrow> timestamp \<Rightarrow> db" where
  "update_category_recipe_count d cid now =
     (let n = count_recipe_categories d cid;
          d' = d\<lparr>categories :=
                   map (\<lambda>c. if c_id c = cid then c\<lparr>c_recipe_count := Some n\<rparr> else c)
                       (categories d)\<rparr>
      in fire_after_update_categories d' cid now)"

text \<open>
  \<^verbatim>\<open>INSERT INTO recipe_categories (recipe_id, category_id) VALUES (rid, cid)\<close>:
  both foreign keys, the \<^verbatim>\<open>UNIQUE(recipe_id, category_id)\<close> constraint, then the
  row and the trigger \<^verbatim>\<open>update_category_recipe_count_insert\<close>.
\<close>

definition insert_recipe_category :: "db \<Rightarrow> int \<Rightarrow> int \<Rightarrow> timestamp \<Rightarrow> sql_error + db" where
  "insert_recipe_category d rid cid now =
     (if rid \<notin> set (map r_id (recipes d)) \<or> cid \<notin> set (map c_id (categories d))
      then Inl ForeignKeyViolation
      else if \<exists>a \<in> set (recipe_categories d). rc_recipe_id a = rid \<and> rc_category_id a = cid
      then Inl UniqueViolation
      else
        let aid = next_rowid (seq_recipe_categories d) (map rc_id (recipe_categories d));
            d' = d\<lparr>recipe_categories :=
                     recipe_categories d @
                       [\<lparr>rc_id = aid, rc_recipe_id = rid, rc_category_id = cid\<rparr>],
                   seq_recipe_categories := aid\<rparr>
        in Inr (update_category_recipe_count d' cid now))"

text \<open>
  One row of \<^verbatim>\<open>recipe_categories\<close> is deleted, by a statement or by a cascade:
  the row goes, then the trigger \<^verbatim>\<open>update_category_recipe_count_delete\<close> runs with
  it as \<^verbatim>\<open>OLD\<close>.
\<close>

definition delete_recipe_categories_row :: "timestamp \<Rightarrow> recipe_category \<Rightarrow> db \<Rightarrow> db" where
  "delete_recipe_categories_row now old d =
     update_category_recipe_count
       (d\<lparr>recipe_categories := filter (\<lambda>a. rc_id a \<noteq> rc_id old) (recipe_categories d)\<rparr>)
       (rc_category_id old) now"

text \<open>\<^verbatim>\<open>DELETE FROM recipe_categories WHERE id = aid\<close>\<close>

definition delete_recipe_category :: "db \<Rightarrow> int \<Rightarrow> timestamp \<Rightarrow> db" where
  "delete_recipe_category d aid now =
     (case find (\<lambda>a. rc_id a = aid) (recipe_categories d) of
        None \<Rightarrow> d
      | Some old \<Rightarrow> delete_recipe_categories_row now old d)"

text \<open>The invariant of \<^verbatim>\<open>categories.recipe_count\<close>.\<close>

definition recipe_count_ok :: "db \<Rightarrow> category \<Rightarrow> bool" where
  "recipe_count_ok d c \<longleftrightarrow> c_recipe_count c = Some (count_recipe_categories d (c_id c))"

definition recipe_counts_ok :: "db \<Rightarrow> bool" where
  "recipe_counts_ok d \<longleftrightarrow> (\<forall>c \<in> set (categories d). recipe_count_ok d c)"

subsection \<open>Recipes, the search index and the timestamp\<close>

text \<open>SQLite's \<^verbatim>\<open>LOWER\<close> folds the ASCII letters only.\<close>

definition sql_lower_char :: "char \<Rightarrow> char" where
  "sql_lower_char c =
     (case map_of (zip ''ABCDEFGHIJKLMNOPQRSTUVWXYZ'' ''abcdefghijklmnopqrstuvwxyz'') c of
        None \<Rightarrow> c
      | Some l \<Rightarrow> l)"

definition sql_lower :: "string \<Rightarrow> string" where
  "sql_lower s = map sql_lower_char s"

text \<open>The operator \<^verbatim>\<open>||\<close>: \<^verbatim>\<open>NULL\<close> when either side is.\<close>

definition sql_concat :: "string option \<Rightarrow> string option \<Rightarrow> string option" where
  "sql_concat a b =
     (case a of None \<Rightarrow> None
      | Some x \<Rightarrow> (case b of None \<Rightarrow> None | Some y \<Rightarrow> Some (x @ y)))"

text \<open>
  \<^verbatim>\<open>LOWER(title || ' ' || description || ' ' || tags || ' ' || ingredients || ' ' ||
  instructions)\<close>, the expression of the seeding statement and of the trigger
  \<^verbatim>\<open>update_search_index\<close>. \<^verbatim>\<open>description\<close> and \<^verbatim>\<open>tags\<close> are nullable columns.
\<close>

definition search_text_expr :: "recipe \<Rightarrow> string option" where
  "search_text_expr r =
     map_option sql_lower
       (sql_concat (sql_concat (sql_concat (sql_concat (sql_concat (sql_concat (sql_concat
          (sql_concat (Some (r_title r)) (Some '' '')) (r_description r)) (Some '' ''))
          (r_tags r)) (Some '' '')) (Some (r_ingredients r))) (Some '' ''))
          (Some (r_instructions r)))"

text \<open>
  Trigger \<^verbatim>\<open>update_search_index\<close>, \<^verbatim>\<open>AFTER UPDATE ON recipes\<close>:
  \<^verbatim>\<open>DELETE FROM recipe_search_index WHERE recipe_id = NEW.id\<close>, then the
  \<^verbatim>\<open>INSERT\<close> of one row. \<^verbatim>\<open>search_text\<close> is \<^verbatim>\<open>NOT NULL\<close>, so a \<^verbatim>\<open>NULL\<close> text
  fails the statement that fired the trigger. (The new row's foreign key holds:
  \<^verbatim>\<open>NEW\<close> is a row of \<^verbatim>\<open>recipes\<close>.)
\<close>

definition update_search_index :: "db \<Rightarrow> recipe \<Rightarrow> timestamp \<Rightarrow> sql_error + db" where
  "update_search_index d new now =
     (let kept = filter (\<lambda>x. si_recipe_id x \<noteq> r_id new) (recipe_search_index d)
      in case search_text_expr new of
           None \<Rightarrow> Inl NotNullViolation
         | Some t \<Rightarrow>
             let sid = next_rowid (seq_search_index d) (map si_id kept)
             in Inr (d\<lparr>recipe_search_index :=
                         kept @ [\<lparr>si_id = sid, si_recipe_id = r_id new,
                                  si_search_text = t, si_created_at = Some now\<rparr>],
                       seq_search_index := sid\<rparr>))"

text \<open>
  Trigger \<^verbatim>\<open>update_recipe_timestamp\<close>, \<^verbatim>\<open>AFTER UPDATE ON recipes\<close>:
  \<^verbatim>\<open>UPDATE recipes SET updated_at = CURRENT_TIMESTAMP WHERE id = NEW.id\<close>. This
  \<^verbatim>\<open>UPDATE\<close> is itself an update of \<^verbatim>\<open>recipes\<close>: it does not fire its own
  trigger again, and it fires \<^verbatim>\<open>update_search_index\<close> for the row it changed.
\<close>

definition update_recipe_timestamp :: "db \<Rightarrow> recipe \<Rightarrow> timestamp \<Rightarrow> sql_error + db" where
  "update_recipe_timestamp d new now =
     (let d' = d\<lparr>recipes :=
                   map (\<lambda>r. if r_id r = r_id new then r\<lparr>r_updated_at := Some now\<rparr> else r)
                       (recipes d)\<rparr>
      in case find (\<lambda>r. r_id r = r_id new) (recipes d') of
           None \<Rightarrow> Inr d'
         | Some new' \<Rightarrow> update_search_index d' new' now)"

text \<open>
  The \<^verbatim>\<open>AFTER UPDATE\<close> triggers of \<^verbatim>\<open>recipes\<close>, fired for the row an
  \<^verbatim>\<open>UPDATE ... WHERE id = rid\<close> has changed (at most one, \<^verbatim>\<open>id\<close> being the primary
  key). SQLite runs the trigger created last first; the two triggers write
  different tables, so the other order ends in the same store.
\<close>

definition fire_after_update_recipes :: "db \<Rightarrow> int \<Rightarrow> timestamp \<Rightarrow> sql_error + db" where
  "fire_after_update_recipes d rid now =
     (case find (\<lambda>r. r_id r = rid) (recipes d) of
        None \<Rightarrow> Inr d
      | Some new \<Rightarrow>
          bind_res (update_recipe_timestamp d new now)
            (\<lambda>d'. update_search_index d' new now))"

definition check_in :: "string option \<Rightarrow> string list \<Rightarrow> bool" where
  "check_in v allowed = (case v of None \<Rightarrow> True | Some s \<Rightarrow> s \<in> set allowed)"

text \<open>The \<^verbatim>\<open>CHECK\<close> constraints of \<^verbatim>\<open>recipes\<close>; a \<^verbatim>\<open>NULL\<close> passes a check.\<close>

definition recipe_checks :: "recipe \<Rightarrow> bool" where
  "recipe_checks r \<longleftrightarrow>
     check_in (r_difficulty r) [''easy'', ''medium'', ''hard''] \<and>
     check_in (r_status r) [''draft'', ''published'', ''archived'']"

text \<open>
  \<^verbatim>\<open>INSERT INTO recipes (...) VALUES (...)\<close> with the column values of \<open>vals\<close>
  and a fresh id. No trigger of the schema is \<^verbatim>\<open>ON recipes\<close> for \<^verbatim>\<open>INSERT\<close>.
\<close>

definition insert_recipe :: "db \<Rightarrow> recipe \<Rightarrow> sql_error + db" where
  "insert_recipe d vals =
     (if \<not> recipe_checks vals then Inl CheckViolation
      else if r_slug vals \<in> set (map r_slug (recipes d)) then Inl UniqueViolation
      else
        let rid = next_rowid (seq_recipes d) (map r_id (recipes d))
        in Inr (d\<lparr>recipes := recipes d @ [vals\<lparr>r_id := rid\<rparr>], seq_recipes := rid\<rparr>))"

text \<open>
  \<^verbatim>\<open>UPDATE recipes SET slug = ?, title = ?, ..., updated_at = ? WHERE id = rid\<close>:
  every column but \<^verbatim>\<open>id\<close> takes the client's value from \<open>vals\<close>.
\<close>

definition update_recipe :: "db \<Rightarrow> int \<Rightarrow> recipe \<Rightarrow> timestamp \<Rightarrow> sql_error + db" where
  "update_recipe d rid vals now =
     (case find (\<lambda>r. r_id r = rid) (recipes d) of
        None \<Rightarrow> Inr d
      | Some old \<Rightarrow>
          let new = vals\<lparr>r_id := rid\<rparr> in
          if \<not> recipe_checks new then Inl CheckViolation
          else if \<exists>r \<in> set (recipes d). r_id r \<noteq> rid \<and> r_slug r = r_slug new
          then Inl UniqueViolation
          else fire_after_update_recipes
                 (d\<lparr>recipes := map (\<lambda>r. if r_id r = rid then new else r) (recipes d)\<rparr>)
                 rid now)"

text \<open>
  The seeding statement \<^verbatim>\<open>INSERT INTO recipe_search_index (recipe_id, search_text)
  SELECT id, LOWER(...) FROM recipes\<close>: one row per recipe, ids counting up from
  \<open>n\<close>.
\<close>

fun seed_rows :: "int \<Rightarrow> recipe list \<Rightarrow> timestamp \<Rightarrow> sql_error + search_index_row list" where
  "seed_rows n [] now = Inr []"
| "seed_rows n (r # rs) now =
     (case search_text_expr r of
        None \<Rightarrow> Inl NotNullViolation
      | Some t \<Rightarrow>
          bind_res (seed_rows (n + 1) rs now)
            (\<lambda>rows. Inr (\<lparr>si_id = n + 1, si_recipe_id = r_id r,
                           si_search_text = t, si_created_at = Some now\<rparr> # rows)))"

definition seed_search_index :: "db \<Rightarrow> timestamp \<Rightarrow> sql_error + db" where
  "seed_search_index d now =
     (let n = next_rowid (seq_search_index d) (map si_id (recipe_search_index d)) - 1
      in bind_res (seed_rows n (recipes d) now)
           (\<lambda>rows. Inr (d\<lparr>recipe_search_index := recipe_search_index d @ rows,
                           seq_search_index :=
                             (if rows = [] then seq_search_index d
                              else n + int (length rows))\<rparr>)))"

subsection \<open>Reviews and the rating aggregate\<close>

text \<open>\<^verbatim>\<open>AVG\<close> is \<^verbatim>\<open>NULL\<close> over no rows.\<close>

definition sql_avg :: "rat list \<Rightarrow> rat option" where
  "sql_avg xs = (if xs = [] then None else Some (sum_list xs / of_nat (length xs)))"

definition sql_coalesce :: "rat option \<Rightarrow> rat \<Rightarrow> rat option" where
  "sql_coalesce x y = (case x of None \<Rightarrow> Some y | Some v \<Rightarrow> Some v)"

text \<open>The ratings that \<^verbatim>\<open>FROM reviews WHERE recipe_id = rid\<close> selects.\<close>

definition recipe_ratings :: "db \<Rightarrow> int \<Rightarrow> rat list" where
  "recipe_ratings d rid = map rv_rating (filter (\<lambda>v. rv_recipe_id v = rid) (reviews d))"

text \<open>
  Trigger \<^verbatim>\<open>update_recipe_rating_insert\<close>, \<^verbatim>\<open>AFTER INSERT ON reviews\<close>:
  \<^verbatim>\<open>UPDATE recipes SET rating = (SELECT AVG(CAST(rating AS REAL)) FROM reviews
  WHERE recipe_id = NEW.recipe_id), review_count = (SELECT COUNT( * ) FROM reviews
  WHERE recipe_id = NEW.recipe_id) WHERE id = NEW.recipe_id\<close>. The \<^verbatim>\<open>UPDATE\<close>
  fires the \<^verbatim>\<open>AFTER UPDATE\<close> triggers of \<^verbatim>\<open>recipes\<close>.
\<close>

definition update_recipe_rating_insert :: "db \<Rightarrow> review \<Rightarrow> timestamp \<Rightarrow> sql_error + db" where
  "update_recipe_rating_insert d new now =
     (let rid = rv_recipe_id new;
          rs = recipe_ratings d rid;
          d' = d\<lparr>recipes :=
                   map (\<lambda>r. if r_id r = rid
                            then r\<lparr>r_rating := sql_avg rs,
                                   r_review_count := Some (int (length rs))\<rparr>
                            else r) (recipes d)\<rparr>
      in fire_after_update_recipes d' rid now)"

text \<open>
  Trigger \<^verbatim>\<open>update_recipe_rating_delete\<close>, \<^verbatim>\<open>AFTER DELETE ON reviews\<close>: the same
  \<^verbatim>\<open>UPDATE\<close> for \<^verbatim>\<open>OLD.recipe_id\<close>, with \<^verbatim>\<open>rating = COALESCE((SELECT AVG(...)), 0)\<close>.
\<close>

definition update_recipe_rating_delete :: "db \<Rightarrow> review \<Rightarrow> timestamp \<Rightarrow> sql_error + db" where
  "update_recipe_rating_delete d old now =
     (let rid = rv_recipe_id old;
          rs = recipe_ratings d rid;
          d' = d\<lparr>recipes :=
                   map (\<lambda>r. if r_id r = rid
                            then r\<lparr>r_rating := sql_coalesce (sql_avg rs) 0,
                                   r_review_count := Some (int (length rs))\<rparr>
                            else r) (recipes d)\<rparr>
      in fire_after_update_recipes d' rid now)"

text \<open>
  \<^verbatim>\<open>INSERT INTO reviews (recipe_id, reviewer_name, reviewer_email, rating, title,
  comment [, status]) VALUES (...)\<close>. \<open>status\<close> is \<open>None\<close> when the statement
  leaves the column out, as \<^verbatim>\<open>addReview\<close> and the sample data do; the column's
  \<^verbatim>\<open>DEFAULT 'published'\<close> then applies. \<^verbatim>\<open>helpful_count\<close> and \<^verbatim>\<open>created_at\<close>
  take their defaults. A failed constraint or a failed trigger fails the
  statement, whichever the engine meets first.
\<close>

definition insert_review ::
  "db \<Rightarrow> int \<Rightarrow> string \<Rightarrow> string option \<Rightarrow> rat \<Rightarrow> string option \<Rightarrow> string option \<Rightarrow>
   string option \<Rightarrow> timestamp \<Rightarrow> sql_error + db" where
  "insert_review d rid name email rating title comment status now =
     (let st = (case status of None \<Rightarrow> ''published'' | Some s \<Rightarrow> s) in
      if \<not> (1 \<le> rating \<and> rating \<le> 5) \<or>
         st \<notin> set [''pending'', ''published'', ''rejected'']
      then Inl CheckViolation
      else if rid \<notin> set (map r_id (recipes d)) then Inl ForeignKeyViolation
      else
        let vid = next_rowid (seq_reviews d) (map rv_id (reviews d));
            new = \<lparr>rv_id = vid, rv_recipe_id = rid, rv_reviewer_name = name,
                   rv_reviewer_email = email, rv_rating = rating, rv_title = title,
                   rv_comment = comment, rv_helpful_count = Some 0, rv_status = Some st,
                   rv_created_at = Some now\<rparr>;
            d' = d\<lparr>reviews := reviews d @ [new], seq_reviews := vid\<rparr>
        in update_recipe_rating_insert d' new now)"

text \<open>
  One row of \<^verbatim>\<open>reviews\<close> is deleted, by a statement or by a cascade: the row
  goes, then the trigger \<^verbatim>\<open>update_recipe_rating_delete\<close> runs with it as \<^verbatim>\<open>OLD\<close>.
\<close>

definition delete_reviews_row :: "timestamp \<Rightarrow> review \<Rightarrow> db \<Rightarrow> sql_error + db" where
  "delete_reviews_row now old d =
     update_recipe_rating_delete
       (d\<lparr>reviews := filter (\<lambda>v. rv_id v \<noteq> rv_id old) (reviews d)\<rparr>) old now"

text \<open>\<^verbatim>\<open>DELETE FROM reviews WHERE id = vid\<close>\<close>

definition delete_review :: "db \<Rightarrow> int \<Rightarrow> timestamp \<Rightarrow> sql_error + db" where
  "delete_review d vid now =
     (case find (\<lambda>v. rv_id v = vid) (reviews d) of
        None \<Rightarrow> Inr d
      | Some old \<Rightarrow> delete_reviews_row now old d)"

subsection \<open>Deleting a recipe or a category\<close>

text \<open>Row by row through the rows a cascade deletes, stopping at a failure.\<close>

fun fold_res :: "('a \<Rightarrow> db \<Rightarrow> sql_error + db) \<Rightarrow> 'a list \<Rightarrow> db \<Rightarrow> sql_error + db" where
  "fold_res f [] d = Inr d"
| "fold_res f (x # xs) d = bind_res (f x d) (fold_res f xs)"

text \<open>
  \<^verbatim>\<open>DELETE FROM recipes WHERE id = rid\<close>. The row goes first; then every
  \<^verbatim>\<open>ON DELETE CASCADE\<close> foreign key on \<^verbatim>\<open>recipes(id)\<close> deletes its rows:
  \<^verbatim>\<open>recipe_categories\<close> and \<^verbatim>\<open>reviews\<close> (whose \<^verbatim>\<open>AFTER DELETE\<close> triggers run for
  each row), \<^verbatim>\<open>user_favorites\<close> and \<^verbatim>\<open>recipe_search_index\<close>.
\<close>

definition delete_recipe :: "db \<Rightarrow> int \<Rightarrow> timestamp \<Rightarrow> sql_error + db" where
  "delete_recipe d rid now =
     (case find (\<lambda>r. r_id r = rid) (recipes d) of
        None \<Rightarrow> Inr d
      | Some old \<Rightarrow>
          let d1 = d\<lparr>recipes := filter (\<lambda>r. r_id r \<noteq> rid) (recipes d)\<rparr>;
              d2 = fold (delete_recipe_categories_row now)
                     (filter (\<lambda>a. rc_recipe_id a = rid) (recipe_categories d1)) d1
          in bind_res
               (fold_res (delete_reviews_row now)
                  (filter (\<lambda>v. rv_recipe_id v = rid) (reviews d2)) d2)
               (\<lambda>d3. Inr (d3\<lparr>user_favorites :=
                               filter (\<lambda>u. uf_recipe_id u \<noteq> rid) (user_favorites d3),
                             recipe_search_index :=
                               filter (\<lambda>x. si_recipe_id x \<noteq> rid) (recipe_search_index d3)\<rparr>)))"

text \<open>
  \<^verbatim>\<open>DELETE FROM categories WHERE id = cid\<close>. \<^verbatim>\<open>parent_id\<close> references
  \<^verbatim>\<open>categories(id)\<close> with no action, so a category that another one names as its
  parent cannot go; \<^verbatim>\<open>recipe_categories.category_id\<close> cascades.
\<close>

definition delete_category :: "db \<Rightarrow> int \<Rightarrow> timestamp \<Rightarrow> sql_error + db" where
  "delete_category d cid now =
     (case find (\<lambda>c. c_id c = cid) (categories d) of
        None \<Rightarrow> Inr d
      | Some old \<Rightarrow>
          if \<exists>c \<in> set (categories d). c_id c \<noteq> cid \<and> c_parent_id c = Some cid
          then Inl ForeignKeyViolation
          else
            let d1 = d\<lparr>categories := filter (\<lambda>c. c_id c \<noteq> cid) (categories d)\<rparr>
            in Inr (fold (delete_recipe_categories_row now)
                      (filter (\<lambda>a. rc_category_id a = cid) (recipe_categories d1)) d1))"

text \<open>
  \<^verbatim>\<open>UPDATE categories SET slug = ?, name = ?, ..., updated_at = ? WHERE id = cid\<close>:
  every column but \<^verbatim>\<open>id\<close> takes the client's value from \<open>vals\<close>.
\<close>

definition update_category :: "db \<Rightarrow> int \<Rightarrow> category \<Rightarrow> timestamp \<Rightarrow> sql_error + db" where
  "update_category d cid vals now =
     (case find (\<lambda>c. c_id c = cid) (categories d) of
        None \<Rightarrow> Inr d
      | Some old \<Rightarrow>
          let new = vals\<lparr>c_id := cid\<rparr> in
          if \<exists>c \<in> set (categories d). c_id c \<noteq> cid \<and> c_slug c = c_slug new
          then Inl UniqueViolation
          else if (case c_parent_id new of
                     None \<Rightarrow> False
                   | Some p \<Rightarrow> p \<notin> set (map c_id (categories d)))
          then Inl ForeignKeyViolation
          else Inr (fire_after_update_categories
                      (d\<lparr>categories := map (\<lambda>c. if c_id c = cid then new else c) (categories d)\<rparr>)
                      cid now))"

subsection \<open>The worker's review handlers\<close>

text \<open>
  The JSON body of \<^verbatim>\<open>POST /api/recipes/:slug/reviews\<close> as \<^verbatim>\<open>addReview\<close>
  destructures it. A field is \<open>None\<close> when it is absent or \<^verbatim>\<open>null\<close>; the text
  fields are JSON strings and \<^verbatim>\<open>rating\<close> is a JSON number.
\<close>

record review_body =
  rb_reviewer_name :: "string option"
  rb_reviewer_email :: "string option"
  rb_rating :: "rat option"
  rb_title :: "string option"
  rb_comment :: "string option"

text \<open>The responses: 201 with the new row's id, 400, 404 and 500.\<close>

datatype api_response = Created int | InvalidReviewData | RecipeNotFound | FailedToAddReview

text \<open>\<^verbatim>\<open>x || null\<close> on a string or a missing value: the empty string is falsy.\<close>

definition or_null :: "string option \<Rightarrow> string option" where
  "or_null x = (case x of None \<Rightarrow> None | Some s \<Rightarrow> if s = [] then None else Some s)"

text \<open>
  \<^verbatim>\<open>addReview\<close>: the validation
  \<^verbatim>\<open>!reviewer_name || !rating || rating < 1 || rating > 5\<close>, the lookup
  \<^verbatim>\<open>SELECT id FROM recipes WHERE slug = ?\<close>, then the \<^verbatim>\<open>INSERT\<close>, whose failure
  the \<^verbatim>\<open>catch\<close> turns into a 500. The result is the response and the store.
\<close>

definition addReview :: "db \<Rightarrow> string \<Rightarrow> review_body \<Rightarrow> timestamp \<Rightarrow> api_response \<times> db" where
  "addReview d recipeSlug body now =
     (case rb_reviewer_name body of
        None \<Rightarrow> (InvalidReviewData, d)
      | Some reviewer_name \<Rightarrow>
          (case rb_rating body of
             None \<Rightarrow> (InvalidReviewData, d)
           | Some rating \<Rightarrow>
               if reviewer_name = [] \<or> rating = 0 \<or> rating < 1 \<or> rating > 5
               then (InvalidReviewData, d)
               else
                 (case find (\<lambda>r. r_slug r = recipeSlug) (recipes d) of
                    None \<Rightarrow> (RecipeNotFound, d)
                  | Some recipeResult \<Rightarrow>
                      (case insert_review d (r_id recipeResult) reviewer_name
                              (or_null (rb_reviewer_email body)) rating
                              (or_null (rb_title body)) (or_null (rb_comment body)) None now of
                         Inl e \<Rightarrow> (FailedToAddReview, d)
                       | Inr d' \<Rightarrow> (Created (seq_reviews d'), d')))))"

text \<open>
  The rows that \<^verbatim>\<open>getRecipeReviews\<close> reads for a recipe id, before its
  \<^verbatim>\<open>ORDER BY\<close> and paging: \<^verbatim>\<open>FROM reviews WHERE recipe_id = ? AND status =
  'published'\<close>; its statistics query counts the same rows.
\<close>

definition published_reviews :: "db \<Rightarrow> int \<Rightarrow> review list" where
  "published_reviews d rid =
     filter (\<lambda>v. rv_recipe_id v = rid \<and> rv_status v = Some ''published'') (reviews d)"

definition total_reviews :: "db \<Rightarrow> int \<Rightarrow> int" where
  "total_reviews d rid = int (length (published_reviews d rid))"

definition average_rating :: "db \<Rightarrow> int \<Rightarrow> rat option" where
  "average_rating d rid = sql_avg (map rv_rating (published_reviews d rid))"

subsection \<open>The statements that write the store\<close>

text \<open>
  The writes of the schema and of the worker, one constructor for each:
  \<^verbatim>\<open>UPDATE\<close>, \<^verbatim>\<open>INSERT\<close> and \<^verbatim>\<open>DELETE\<close> on \<^verbatim>\<open>recipes\<close>, \<^verbatim>\<open>INSERT\<close> and
  \<^verbatim>\<open>DELETE\<close> on \<^verbatim>\<open>reviews\<close> and on \<^verbatim>\<open>recipe_categories\<close>, \<^verbatim>\<open>UPDATE\<close> and
  \<^verbatim>\<open>DELETE\<close> on \<^verbatim>\<open>categories\<close>, and the handler \<^verbatim>\<open>addReview\<close>. The seeding of the
  index is not among them: the schema runs it once, on the empty index.
\<close>

datatype statement =
    UpdateRecipe int recipe
  | InsertRecipe recipe
  | DeleteRecipe int
  | InsertReview int string "string option" rat "string option" "string option" "string option"
  | DeleteReview int
  | AddReview string review_body
  | InsertRecipeCategory int int
  | DeleteRecipeCategory int
  | UpdateCategory int category
  | DeleteCategory int

fun run :: "statement \<Rightarrow> timestamp \<Rightarrow> db \<Rightarrow> sql_error + db" where
  "run (UpdateRecipe rid vals) now d = update_recipe d rid vals now"
| "run (InsertRecipe vals) now d = insert_recipe d vals"
| "run (DeleteRecipe rid) now d = delete_recipe d rid now"
| "run (InsertReview rid name email rating title comment status) now d =
     insert_review d rid name email rating title comment status now"
| "run (DeleteReview vid) now d = delete_review d vid now"
| "run (AddReview slug body) now d = Inr (snd (addReview d slug body now))"
| "run (InsertRecipeCategory rid cid) now d = insert_recipe_category d rid cid now"
| "run (DeleteRecipeCategory aid) now d = Inr (delete_recipe_category d aid now)"
| "run (UpdateCategory cid vals) now d = update_category d cid vals now"
| "run (DeleteCategory cid) now d = delete_category d cid now"

text \<open>
  The statement writes the row of recipe \<open>k\<close>: it updates or deletes that row, or
  it inserts or deletes a review of recipe \<open>k\<close>, whose trigger updates the row.
\<close>

fun touches :: "statement \<Rightarrow> db \<Rightarrow> int \<Rightarrow> bool" where
  "touches (UpdateRecipe rid vals) d k \<longleftrightarrow> rid = k"
| "touches (DeleteRecipe rid) d k \<longleftrightarrow> rid = k"
| "touches (InsertReview rid name email rating title comment status) d k \<longleftrightarrow> rid = k"
| "touches (DeleteReview vid) d k \<longleftrightarrow>
     (case find (\<lambda>v. rv_id v = vid) (reviews d) of
        None \<Rightarrow> False
      | Some old \<Rightarrow> rv_recipe_id old = k)"
| "touches (AddReview slug body) d k \<longleftrightarrow>
     (case find (\<lambda>r. r_slug r = slug) (recipes d) of
        None \<Rightarrow> False
      | Some recipeResult \<Rightarrow> r_id recipeResult = k)"
| "touches (InsertRecipe vals) d k \<longleftrightarrow> False"
| "touches (InsertRecipeCategory rid cid) d k \<longleftrightarrow> False"
| "touches (DeleteRecipeCategory aid) d k \<longleftrightarrow> False"
| "touches (UpdateCategory cid vals) d k \<longleftrightarrow> False"
| "touches (DeleteCategory cid) d k \<longleftrightarrow> False"

text \<open>
  A session is a list of statements, each with the time it runs at. A statement that fails
  is rolled back and leaves the store as it was. \<open>states\<close> lists the store before
  the first statement and after each statement.
\<close>

fun states :: "(statement \<times> timestamp) list \<Rightarrow> db \<Rightarrow> db list" where
  "states [] d = [d]"
| "states ((s, now) # ss) d =
     d # states ss (case run s now d of Inl e \<Rightarrow> d | Inr d' \<Rightarrow> d')"

subsection \<open>What the statements are measured against\<close>

text \<open>
  The net effect of the two \<^verbatim>\<open>AFTER UPDATE\<close> triggers of \<^verbatim>\<open>recipes\<close> on the row
  \<open>rid\<close>: the row is stamped, and its index rows are replaced by one row.
\<close>

definition stamped :: "db \<Rightarrow> int \<Rightarrow> timestamp \<Rightarrow> db" where
  "stamped d rid now =
     d\<lparr>recipes :=
          map (\<lambda>r. if r_id r = rid then r\<lparr>r_updated_at := Some now\<rparr> else r) (recipes d)\<rparr>"

definition reindexed :: "db \<Rightarrow> int \<Rightarrow> string \<Rightarrow> int \<Rightarrow> timestamp \<Rightarrow> db" where
  "reindexed d rid t sid now =
     d\<lparr>recipe_search_index :=
          filter (\<lambda>x. si_recipe_id x \<noteq> rid) (recipe_search_index d) @
            [\<lparr>si_id = sid, si_recipe_id = rid, si_search_text = t, si_created_at = Some now\<rparr>],
        seq_search_index := sid\<rparr>"

text \<open>The row \<open>rid\<close> with the values an \<^verbatim>\<open>UPDATE\<close> sets, before the triggers run.\<close>

definition replaced :: "db \<Rightarrow> int \<Rightarrow> recipe \<Rightarrow> db" where
  "replaced d rid vals =
     d\<lparr>recipes := map (\<lambda>r. if r_id r = rid then vals\<lparr>r_id := rid\<rparr> else r) (recipes d)\<rparr>"

text \<open>The search texts of the index rows of recipe \<open>rid\<close>.\<close>

definition search_texts :: "db \<Rightarrow> int \<Rightarrow> string list" where
  "search_texts d rid =
     map si_search_text (filter (\<lambda>x. si_recipe_id x = rid) (recipe_search_index d))"

text \<open>
  Recipe row \<open>r\<close> has exactly one index row, and that row's text is the
  lowercase concatenation of the row's current title, description, tags,
  ingredients and instructions.
\<close>

definition search_index_current :: "db \<Rightarrow> recipe \<Rightarrow> bool" where
  "search_index_current d r \<longleftrightarrow> map Some (search_texts d (r_id r)) = [search_text_expr r]"

text \<open>The row that an \<^verbatim>\<open>INSERT INTO reviews\<close> adds.\<close>

definition new_review ::
  "db \<Rightarrow> int \<Rightarrow> string \<Rightarrow> string option \<Rightarrow> rat \<Rightarrow> string option \<Rightarrow> string option \<Rightarrow>
   string option \<Rightarrow> timestamp \<Rightarrow> review" where
  "new_review d rid name email rating title comment status now =
     \<lparr>rv_id = next_rowid (seq_reviews d) (map rv_id (reviews d)), rv_recipe_id = rid,
      rv_reviewer_name = name, rv_reviewer_email = email, rv_rating = rating, rv_title = title,
      rv_comment = comment, rv_helpful_count = Some 0,
      rv_status = Some (case status of None \<Rightarrow> ''published'' | Some s \<Rightarrow> s),
      rv_created_at = Some now\<rparr>"

text \<open>The arithmetic mean, and 0 for no values.\<close>

definition mean :: "rat list \<Rightarrow> rat" where
  "mean xs = (if xs = [] then 0 else sum_list xs / of_nat (length xs))"

text \<open>
  Recipe row \<open>r\<close> stores the mean and the count of all of its reviews, and of
  its published reviews.
\<close>

definition rating_of_all :: "db \<Rightarrow> recipe \<Rightarrow> bool" where
  "rating_of_all d r \<longleftrightarrow>
     r_rating r = Some (mean (recipe_ratings d (r_id r))) \<and>
     r_review_count r = Some (int (length (recipe_ratings d (r_id r))))"


subsection \<open>A store to run the statements on\<close>

text \<open>
  Category 5 (Desserts) and category 20 (No-Bake) of the sample data, recipe 1
  with shortened texts, and no association, review or index row yet.
\<close>

definition example_recipe :: recipe where
  "example_recipe =
     \<lparr>r_id = 1, r_slug = ''better-than-sex-fruit'', r_title = ''Better Than Sex Fruit'',
      r_description = Some ''A creamy blend'', r_ingredients = ''[Pineapple, Cool Whip]'',
      r_instructions = ''[Combine, Chill]'', r_difficulty = Some ''easy'',
      r_rating = Some 0, r_review_count = Some 0, r_status = Some ''published'',
      r_tags = Some ''[no-bake]'', r_updated_at = Some 0\<rparr>"

definition example_category :: category where
  "example_category =
     \<lparr>c_id = 5, c_slug = ''desserts'', c_name = ''Desserts'', c_parent_id = None,
      c_recipe_count = Some 0, c_updated_at = Some 0\<rparr>"

definition example_db :: db where
  "example_db =
     \<lparr>categories =
        [example_category,
         \<lparr>c_id = 20, c_slug = ''no-bake'', c_name = ''No-Bake'', c_parent_id = None,
          c_recipe_count = Some 0, c_updated_at = Some 0\<rparr>],
      recipes = [example_recipe],
      recipe_categories = [],
      reviews = [],
      user_favorites = [],
      recipe_search_index = [],
      seq_recipes = 1, seq_recipe_categories = 0, seq_reviews = 0, seq_search_index = 0\<rparr>"

text \<open>
  The store after the \<open>n\<close>-th statement on the reviews of recipe 1, run at time
  \<open>n\<close>: the stored rating and count, the review rows \<open>rs\<close>, the largest review id
  so far, and the one index row, rebuilt twice by each statement.
\<close>

definition example_search_text :: string where
  "example_search_text =
     ''better than sex fruit a creamy blend [no-bake] [pineapple, cool whip] [combine, chill]''"

definition reviewed_db :: "rat \<Rightarrow> int \<Rightarrow> review list \<Rightarrow> int \<Rightarrow> nat \<Rightarrow> db" where
  "reviewed_db avg cnt rs seq n =
     example_db
       \<lparr>recipes := [example_recipe\<lparr>r_rating := Some avg, r_review_count := Some cnt,
                                   r_updated_at := Some n\<rparr>],
        reviews := rs,
        recipe_search_index :=
          [\<lparr>si_id = 2 * int n, si_recipe_id = 1, si_search_text = example_search_text,
            si_created_at = Some n\<rparr>],
        seq_reviews := seq,
        seq_search_index := 2 * int n\<rparr>"

definition example_review :: "int \<Rightarrow> string \<Rightarrow> rat \<Rightarrow> string \<Rightarrow> nat \<Rightarrow> review" where
  "example_review vid name rating status n =
     \<lparr>rv_id = vid, rv_recipe_id = 1, rv_reviewer_name = name, rv_reviewer_email = None,
      rv_rating = rating, rv_title = None, rv_comment = None, rv_helpful_count = Some 0,
      rv_status = Some status, rv_created_at = Some n\<rparr>"

text \<open>
  The store after the first review, with recipe 1 linked to category 5: the
  recipe has an association row, a review and an index row.
\<close>

definition linked_db :: db where
  "linked_db =
     (reviewed_db 5 1 [example_review 1 ''Sarah M.'' 5 ''published'' 1] 1 1)
       \<lparr>recipe_categories := [\<lparr>rc_id = 1, rc_recipe_id = 1, rc_category_id = 5\<rparr>],
        seq_recipe_categories := 1\<rparr>"

text \<open>The values of a second recipe, to be inserted.\<close>

definition lemon_cake :: recipe where
  "lemon_cake =
     \<lparr>r_id = 0, r_slug = ''lemon-cream-cheese-cake'', r_title = ''Lemon Cream Cheese Cake'',
      r_description = Some ''Layered lemon filling'', r_ingredients = ''[Yellow cake mix]'',
      r_instructions = ''[Bake, Cool]'', r_difficulty = Some ''medium'',
      r_rating = Some 0, r_review_count = Some 0, r_status = Some ''published'',
      r_tags = Some ''[citrus]'', r_updated_at = Some 0\<rparr>"

text \<open>The same store with stored counts that have drifted from the rows.\<close>

definition stale_db :: db where
  "stale_db =
     example_db\<lparr>categories :=
       map (\<lambda>c. c\<lparr>c_recipe_count := Some 7\<rparr>) (categories example_db)\<rparr>"

section \<open>Properties\<close>

lemma categories_fire_after_update_categories:
  "categories (fire_after_update_categories d cid now) =
     map (\<lambda>c. if c_id c = cid then c\<lparr>c_updated_at := Some now\<rparr> else c) (categories d)"
proof (cases "find (\<lambda>c. c_id c = cid) (categories d)")
  case None
  then have "\<forall>c \<in> set (categories d). c_id c \<noteq> cid"
    by (simp add: find_None_iff)
  then have "map (\<lambda>c. if c_id c = cid then c\<lparr>c_updated_at := Some now\<rparr> else c) (categories d)
             = categories d"
    by (simp add: map_idI)
  with None show ?thesis
    by (simp add: fire_after_update_categories_def)
next
  case (Some new)
  then have "c_id new = cid"
    by (auto simp: find_Some_iff)
  with Some show ?thesis
    by (simp add: fire_after_update_categories_def update_category_timestamp_def)
qed

lemma recipe_categories_fire_after_update_categories:
  "recipe_categories (fire_after_update_categories d cid now) = recipe_categories d"
  by (simp add: fire_after_update_categories_def update_category_timestamp_def
           split: option.splits)

lemma categories_update_category_recipe_count:
  "categories (update_category_recipe_count d cid now) =
     map (\<lambda>c. if c_id c = cid
              then c\<lparr>c_recipe_count := Some (count_recipe_categories d cid),
                     c_updated_at := Some now\<rparr>
              else c) (categories d)"
  by (simp add: update_category_recipe_count_def Let_def
                categories_fire_after_update_categories o_def if_distrib cong: if_cong)

lemma recipe_categories_update_category_recipe_count:
  "recipe_categories (update_category_recipe_count d cid now) = recipe_categories d"
  by (simp add: update_category_recipe_count_def Let_def
                recipe_categories_fire_after_update_categories)

lemma count_update_category_recipe_count:
  "count_recipe_categories (update_category_recipe_count d cid now) k =
     count_recipe_categories d k"
  by (simp add: count_recipe_categories_def recipe_categories_update_category_recipe_count)

lemma in_categories_update_category_recipe_count:
  assumes "c \<in> set (categories (update_category_recipe_count d cid now))"
  obtains x where "x \<in> set (categories d)" "c_id x = c_id c"
    and "c_id x = cid \<Longrightarrow> c_recipe_count c = Some (count_recipe_categories d cid)"
    and "c_id x \<noteq> cid \<Longrightarrow> c = x"
proof -
  from assms obtain x where x: "x \<in> set (categories d)"
    and c: "c = (if c_id x = cid
                 then x\<lparr>c_recipe_count := Some (count_recipe_categories d cid),
                        c_updated_at := Some now\<rparr>
                 else x)"
    by (auto simp: categories_update_category_recipe_count)
  show thesis
  proof (rule that [of x])
    show "x \<in> set (categories d)" by (rule x)
    show "c_id x = c_id c" by (simp add: c)
    show "c_id x = cid \<Longrightarrow> c_recipe_count c = Some (count_recipe_categories d cid)"
      by (simp add: c)
    show "c_id x \<noteq> cid \<Longrightarrow> c = x" by (simp add: c)
  qed
qed

lemma update_category_recipe_count_affected:
  assumes "c \<in> set (categories (update_category_recipe_count d cid now))" "c_id c = cid"
  shows "recipe_count_ok (update_category_recipe_count d cid now) c"
proof -
  from assms(1) obtain x where "x \<in> set (categories d)" and x: "c_id x = c_id c"
    and r: "c_id x = cid \<Longrightarrow> c_recipe_count c = Some (count_recipe_categories d cid)"
    and "c_id x \<noteq> cid \<Longrightarrow> c = x"
    by (rule in_categories_update_category_recipe_count) blast
  from x assms(2) have "c_id x = cid" by simp
  then have "c_recipe_count c = Some (count_recipe_categories d cid)" by (rule r)
  then show ?thesis
    by (simp add: recipe_count_ok_def count_update_category_recipe_count assms(2))
qed

lemma update_category_recipe_count_others:
  assumes "\<forall>x \<in> set (categories d). c_id x \<noteq> cid \<longrightarrow> recipe_count_ok d x"
    and "c \<in> set (categories (update_category_recipe_count d cid now))"
  shows "recipe_count_ok (update_category_recipe_count d cid now) c"
proof (cases "c_id c = cid")
  case True
  with assms(2) show ?thesis
    by (rule update_category_recipe_count_affected)
next
  case False
  from assms(2) obtain x where x: "x \<in> set (categories d)" "c_id x = c_id c"
    and "c_id x = cid \<Longrightarrow> c_recipe_count c = Some (count_recipe_categories d cid)"
    and r: "c_id x \<noteq> cid \<Longrightarrow> c = x"
    by (rule in_categories_update_category_recipe_count) blast
  from x False have ne: "c_id x \<noteq> cid" by simp
  then have "c = x" by (rule r)
  with x ne assms(1) have "recipe_count_ok d c"
    by blast
  then show ?thesis
    by (simp add: recipe_count_ok_def count_update_category_recipe_count)
qed

lemma count_recipe_categories_append:
  "count_recipe_categories
     (d\<lparr>recipe_categories := recipe_categories d @ [a], seq_recipe_categories := n\<rparr>) k =
   count_recipe_categories d k + (if rc_category_id a = k then 1 else 0)"
  by (simp add: count_recipe_categories_def)

lemma filter_other_category:
  assumes "distinct (map rc_id xs)" "old \<in> set xs" "rc_category_id old \<noteq> k"
  shows "filter (\<lambda>a. rc_category_id a = k) (filter (\<lambda>a. rc_id a \<noteq> rc_id old) xs) =
         filter (\<lambda>a. rc_category_id a = k) xs"
proof -
  have "\<forall>a \<in> set xs. rc_id a = rc_id old \<longrightarrow> a = old"
    using assms(1,2) by (auto simp: distinct_map dest: inj_onD)
  with assms(3) have "\<forall>a \<in> set xs. rc_category_id a = k \<longrightarrow> rc_id a \<noteq> rc_id old"
    by auto
  then show ?thesis
    by (auto intro: filter_cong)
qed

lemma insert_recipe_category_affected:
  assumes "insert_recipe_category d rid cid now = Inr d'"
    and "c \<in> set (categories d')" "c_id c = cid"
  shows "recipe_count_ok d' c"
proof -
  define d1 where "d1 = d\<lparr>recipe_categories :=
       recipe_categories d @
         [\<lparr>rc_id = next_rowid (seq_recipe_categories d) (map rc_id (recipe_categories d)),
           rc_recipe_id = rid, rc_category_id = cid\<rparr>],
       seq_recipe_categories := next_rowid (seq_recipe_categories d) (map rc_id (recipe_categories d))\<rparr>"
  from assms(1) have "d' = update_category_recipe_count d1 cid now"
    by (simp add: insert_recipe_category_def d1_def Let_def split: if_splits)
  with assms(2,3) show ?thesis
    by (simp add: update_category_recipe_count_affected)
qed

lemma insert_recipe_category_preserves:
  assumes "insert_recipe_category d rid cid now = Inr d'" "recipe_counts_ok d"
  shows "recipe_counts_ok d'"
proof -
  define a where "a = \<lparr>rc_id = next_rowid (seq_recipe_categories d) (map rc_id (recipe_categories d)),
           rc_recipe_id = rid, rc_category_id = cid\<rparr>"
  define d1 where "d1 = d\<lparr>recipe_categories := recipe_categories d @ [a],
       seq_recipe_categories := rc_id a\<rparr>"
  from assms(1) have d': "d' = update_category_recipe_count d1 cid now"
    by (simp add: insert_recipe_category_def d1_def a_def Let_def split: if_splits)
  have "\<forall>x \<in> set (categories d1). c_id x \<noteq> cid \<longrightarrow> recipe_count_ok d1 x"
    using assms(2)
    by (simp add: recipe_counts_ok_def recipe_count_ok_def d1_def a_def
                  count_recipe_categories_append)
  then show ?thesis
    unfolding recipe_counts_ok_def d'
    by (blast intro: update_category_recipe_count_others)
qed

lemma delete_recipe_category_affected:
  assumes "find (\<lambda>a. rc_id a = aid) (recipe_categories d) = Some old"
    and "c \<in> set (categories (delete_recipe_category d aid now))"
    and "c_id c = rc_category_id old"
  shows "recipe_count_ok (delete_recipe_category d aid now) c"
  using assms
  by (simp add: delete_recipe_category_def delete_recipe_categories_row_def
                update_category_recipe_count_affected)

lemma delete_recipe_category_preserves:
  assumes "distinct (map rc_id (recipe_categories d))" "recipe_counts_ok d"
  shows "recipe_counts_ok (delete_recipe_category d aid now)"
proof (cases "find (\<lambda>a. rc_id a = aid) (recipe_categories d)")
  case None
  with assms(2) show ?thesis
    by (simp add: delete_recipe_category_def)
next
  case (Some old)
  then have old: "old \<in> set (recipe_categories d)"
    by (auto simp: find_Some_iff)
  define d1 where
    "d1 = d\<lparr>recipe_categories := filter (\<lambda>a. rc_id a \<noteq> rc_id old) (recipe_categories d)\<rparr>"
  have cnt: "count_recipe_categories d1 k = count_recipe_categories d k"
    if "k \<noteq> rc_category_id old" for k
    using that filter_other_category [OF assms(1) old, of k]
    by (simp add: count_recipe_categories_def d1_def)
  have "\<forall>x \<in> set (categories d1). c_id x \<noteq> rc_category_id old \<longrightarrow> recipe_count_ok d1 x"
    using assms(2) by (simp add: recipe_counts_ok_def recipe_count_ok_def cnt) (simp add: d1_def)
  then have "recipe_counts_ok (update_category_recipe_count d1 (rc_category_id old) now)"
    unfolding recipe_counts_ok_def
    by (blast intro: update_category_recipe_count_others)
  with Some show ?thesis
    by (simp add: delete_recipe_category_def delete_recipe_categories_row_def d1_def)
qed

lemmas category_eval =
  example_db_def example_recipe_def example_category_def insert_recipe_category_def delete_recipe_category_def
  delete_recipe_categories_row_def update_category_recipe_count_def
  fire_after_update_categories_def update_category_timestamp_def count_recipe_categories_def
  next_rowid_def recipe_counts_ok_def recipe_count_ok_def Let_def

subsection \<open>The recipe count of a category\<close>

text \<open>
  Claim C1. After an association row is inserted, the category it names stores
  the number of association rows of that category, whatever count it stored
  before, and if every category's count was right before the insert then every
  category's count is right after it. The same holds after an association row is
  deleted (the association ids being distinct, as the primary key makes them):
  the trigger recounts the rows of the affected category, it does not add or
  subtract one.
\<close>

theorem recipe_count_recount:
  "(insert_recipe_category d rid cid now = Inr d' \<longrightarrow>
      (\<forall>c \<in> set (categories d'). c_id c = cid \<longrightarrow> recipe_count_ok d' c) \<and>
      (recipe_counts_ok d \<longrightarrow> recipe_counts_ok d')) \<and>
   (find (\<lambda>a. rc_id a = aid) (recipe_categories d) = Some old \<longrightarrow>
      (\<forall>c \<in> set (categories (delete_recipe_category d aid now)).
          c_id c = rc_category_id old \<longrightarrow>
          recipe_count_ok (delete_recipe_category d aid now) c)) \<and>
   (distinct (map rc_id (recipe_categories d)) \<and> recipe_counts_ok d \<longrightarrow>
      recipe_counts_ok (delete_recipe_category d aid now))"
  by (blast intro: insert_recipe_category_affected insert_recipe_category_preserves
                   delete_recipe_category_affected delete_recipe_category_preserves)

theorem recipe_count_recount_witness:
  "\<exists>d1 d2.
     insert_recipe_category stale_db 1 5 10 = Inr d1 \<and>
     (\<exists>c \<in> set (categories d1). c_id c = 5 \<and> c_recipe_count c = Some 1 \<and> recipe_count_ok d1 c) \<and>
     recipe_counts_ok example_db \<and>
     insert_recipe_category example_db 1 20 10 = Inr d2 \<and>
     recipe_counts_ok d2 \<and>
     find (\<lambda>a. rc_id a = 1) (recipe_categories d2) =
       Some \<lparr>rc_id = 1, rc_recipe_id = 1, rc_category_id = 20\<rparr> \<and>
     distinct (map rc_id (recipe_categories d2)) \<and>
     recipe_counts_ok (delete_recipe_category d2 1 11) \<and>
     (\<exists>c \<in> set (categories (delete_recipe_category d2 1 11)).
        c_id c = 20 \<and> c_recipe_count c = Some 0 \<and>
        recipe_count_ok (delete_recipe_category d2 1 11) c)"
proof -
  define c5 where "c5 = \<lparr>c_id = 5, c_slug = ''desserts'', c_name = ''Desserts'',
    c_parent_id = None, c_recipe_count = Some (1::int), c_updated_at = Some (10::nat)\<rparr>"
  define d1 where "d1 = stale_db\<lparr>categories :=
      [c5, \<lparr>c_id = 20, c_slug = ''no-bake'', c_name = ''No-Bake'', c_parent_id = None,
            c_recipe_count = Some 7, c_updated_at = Some 0\<rparr>],
      recipe_categories := [\<lparr>rc_id = 1, rc_recipe_id = 1, rc_category_id = 5\<rparr>],
      seq_recipe_categories := 1\<rparr>"
  define d2 where "d2 = example_db\<lparr>categories :=
      [\<lparr>c_id = 5, c_slug = ''desserts'', c_name = ''Desserts'', c_parent_id = None,
        c_recipe_count = Some 0, c_updated_at = Some 0\<rparr>,
       \<lparr>c_id = 20, c_slug = ''no-bake'', c_name = ''No-Bake'', c_parent_id = None,
        c_recipe_count = Some 1, c_updated_at = Some 10\<rparr>],
      recipe_categories := [\<lparr>rc_id = 1, rc_recipe_id = 1, rc_category_id = 20\<rparr>],
      seq_recipe_categories := 1\<rparr>"
  define c20 where "c20 = \<lparr>c_id = 20, c_slug = ''no-bake'', c_name = ''No-Bake'',
    c_parent_id = None, c_recipe_count = Some (0::int), c_updated_at = Some (11::nat)\<rparr>"
  have e1: "insert_recipe_category stale_db 1 5 10 = Inr d1"
    by (simp add: category_eval stale_db_def d1_def c5_def)
  have e2: "insert_recipe_category example_db 1 20 10 = Inr d2"
    by (simp add: category_eval d2_def)
  have ok0: "recipe_counts_ok example_db"
    by (simp add: category_eval)
  have f2: "find (\<lambda>a. rc_id a = 1) (recipe_categories d2) =
              Some \<lparr>rc_id = 1, rc_recipe_id = 1, rc_category_id = 20\<rparr>"
    and dist2: "distinct (map rc_id (recipe_categories d2))"
    by (simp_all add: d2_def)
  have m1: "c5 \<in> set (categories d1)" "c_id c5 = 5" "c_recipe_count c5 = Some 1"
    by (simp_all add: d1_def c5_def)
  have m2: "c20 \<in> set (categories (delete_recipe_category d2 1 11))" "c_id c20 = 20"
    "c_recipe_count c20 = Some 0"
    by (simp_all add: category_eval d2_def c20_def)
  note ins1 = recipe_count_recount [of stale_db 1 5 10 d1]
  note ins2 = recipe_count_recount [of example_db 1 20 10 d2]
  note del2 = recipe_count_recount [of d2 0 0 11 d2 1 "\<lparr>rc_id = 1, rc_recipe_id = 1, rc_category_id = 20\<rparr>"]
  from ins1 e1 m1 have r1: "recipe_count_ok d1 c5"
    by blast
  from ins2 e2 ok0 have ok2: "recipe_counts_ok d2"
    by blast
  from del2 f2 m2 have r3: "recipe_count_ok (delete_recipe_category d2 1 11) c20"
    by simp
  from del2 dist2 ok2 have ok3: "recipe_counts_ok (delete_recipe_category d2 1 11)"
    by blast
  from e1 m1 r1 ok0 e2 ok2 f2 dist2 ok3 m2 r3 show ?thesis
    by blast
qed

subsection \<open>The triggers of \<^verbatim>\<open>recipes\<close>\<close>

lemma find_map_same_id:
  assumes "\<And>r. r_id r = rid \<Longrightarrow> r_id (g r) = rid"
  shows "find (\<lambda>r. r_id r = rid) (map (\<lambda>r. if r_id r = rid then g r else r) rs) =
         map_option g (find (\<lambda>r. r_id r = rid) rs)"
  by (induction rs) (simp_all add: assms)

lemma search_text_expr_Some:
  "search_text_expr r = Some t \<longleftrightarrow>
     (\<exists>ds ts. r_description r = Some ds \<and> r_tags r = Some ts \<and>
        t = sql_lower (r_title r @ '' '' @ ds @ '' '' @ ts @ '' '' @ r_ingredients r @ '' '' @
                       r_instructions r))"
  by (cases "r_description r"; cases "r_tags r")
     (auto simp: search_text_expr_def sql_concat_def)

lemma update_search_index_Inr:
  assumes "update_search_index d new now = Inr d'"
  shows "\<exists>t sid. search_text_expr new = Some t \<and> d' = reindexed d (r_id new) t sid now"
  using assms
  by (auto simp: update_search_index_def reindexed_def Let_def split: option.splits)

lemma update_search_index_ok:
  assumes "search_text_expr new = Some t"
  shows "\<exists>d'. update_search_index d new now = Inr d'"
  using assms
  by (simp add: update_search_index_def Let_def)

lemma reindexed_twice:
  "reindexed (reindexed d rid t sid now) rid t' sid' now' = reindexed d rid t' sid' now'"
  by (simp add: reindexed_def)

lemma fire_after_update_recipes_None:
  "find (\<lambda>r. r_id r = rid) (recipes d) = None \<Longrightarrow> fire_after_update_recipes d rid now = Inr d"
  by (simp add: fire_after_update_recipes_def)

lemma update_recipe_timestamp_eq:
  assumes "find (\<lambda>r. r_id r = rid) (recipes d) = Some new"
  shows "update_recipe_timestamp d new now =
           update_search_index (stamped d rid now) (new\<lparr>r_updated_at := Some now\<rparr>) now"
proof -
  from assms have id: "r_id new = rid"
    by (auto simp: find_Some_iff)
  have "find (\<lambda>r. r_id r = rid)
          (map (\<lambda>r. if r_id r = rid then r\<lparr>r_updated_at := Some now\<rparr> else r) (recipes d)) =
        Some (new\<lparr>r_updated_at := Some now\<rparr>)"
    by (simp add: find_map_same_id assms)
  then show ?thesis
    by (simp add: update_recipe_timestamp_def stamped_def id Let_def)
qed

lemma fire_after_update_recipes_eq:
  assumes "find (\<lambda>r. r_id r = rid) (recipes d) = Some new"
  shows "fire_after_update_recipes d rid now =
           bind_res (update_search_index (stamped d rid now) (new\<lparr>r_updated_at := Some now\<rparr>) now)
             (\<lambda>d'. update_search_index d' new now)"
  using assms update_recipe_timestamp_eq [OF assms, of now]
  by (simp add: fire_after_update_recipes_def)

lemma fire_after_update_recipes_Inr:
  assumes "find (\<lambda>r. r_id r = rid) (recipes d) = Some new"
    and "fire_after_update_recipes d rid now = Inr d'"
  shows "\<exists>t sid. search_text_expr new = Some t \<and> d' = reindexed (stamped d rid now) rid t sid now"
proof -
  from assms(1) have id: "r_id new = rid"
    by (auto simp: find_Some_iff)
  from assms(2) obtain d1 where
    d1: "update_search_index (stamped d rid now) (new\<lparr>r_updated_at := Some now\<rparr>) now = Inr d1"
    and d': "update_search_index d1 new now = Inr d'"
    by (auto simp: fire_after_update_recipes_eq [OF assms(1)] bind_res_def split: sum.splits)
  from update_search_index_Inr [OF d1] obtain t1 s1 where
    "d1 = reindexed (stamped d rid now) rid t1 s1 now"
    by (auto simp: id)
  moreover from update_search_index_Inr [OF d'] obtain t s where
    "search_text_expr new = Some t" "d' = reindexed d1 rid t s now"
    by (auto simp: id)
  ultimately show ?thesis
    by (auto simp: reindexed_twice)
qed

lemma fire_after_update_recipes_ok:
  assumes "find (\<lambda>r. r_id r = rid) (recipes d) = Some new"
    and "search_text_expr new = Some t"
  shows "\<exists>d'. fire_after_update_recipes d rid now = Inr d'"
proof -
  have "search_text_expr (new\<lparr>r_updated_at := Some now\<rparr>) = Some t"
    using assms(2) by (simp add: search_text_expr_def)
  from update_search_index_ok [OF this] obtain d1 where
    "update_search_index (stamped d rid now) (new\<lparr>r_updated_at := Some now\<rparr>) now = Inr d1"
    by blast
  moreover from update_search_index_ok [OF assms(2)] obtain d2 where
    "update_search_index d1 new now = Inr d2"
    by blast
  ultimately show ?thesis
    by (simp add: fire_after_update_recipes_eq [OF assms(1)] bind_res_def)
qed

lemma find_replace_row:
  assumes "find (\<lambda>r. r_id r = rid) rs = Some old" "r_id new = rid"
  shows "find (\<lambda>r. r_id r = rid) (map (\<lambda>r. if r_id r = rid then new else r) rs) = Some new"
  using find_map_same_id [of rid "\<lambda>_. new" rs] assms by simp

lemma find_recipe_iff:
  "rid \<in> set (map r_id rs) \<longleftrightarrow> (\<exists>old. find (\<lambda>r. r_id r = rid) rs = Some old)"
  by (induction rs) auto

lemma update_recipe_Inr:
  assumes "update_recipe d rid vals now = Inr d'"
    and "find (\<lambda>r. r_id r = rid) (recipes d) = Some old"
  shows "\<exists>t sid. search_text_expr vals = Some t \<and>
           d' = reindexed (stamped (replaced d rid vals) rid now) rid t sid now"
proof -
  from assms have fire: "fire_after_update_recipes (replaced d rid vals) rid now = Inr d'"
    by (simp add: update_recipe_def replaced_def Let_def split: if_splits)
  have "find (\<lambda>r. r_id r = rid) (recipes (replaced d rid vals)) = Some (vals\<lparr>r_id := rid\<rparr>)"
    using find_replace_row [OF assms(2), of "vals\<lparr>r_id := rid\<rparr>"]
    by (simp add: replaced_def)
  from fire_after_update_recipes_Inr [OF this fire] obtain t sid where
    "search_text_expr (vals\<lparr>r_id := rid\<rparr>) = Some t"
    "d' = reindexed (stamped (replaced d rid vals) rid now) rid t sid now"
    by blast
  moreover have "search_text_expr (vals\<lparr>r_id := rid\<rparr>) = search_text_expr vals"
    by (simp add: search_text_expr_def)
  ultimately show ?thesis
    by auto
qed

lemma recipes_after_update:
  "recipes (reindexed (stamped (replaced d rid vals) rid now) rid t sid now) =
     map (\<lambda>r. if r_id r = rid then vals\<lparr>r_id := rid, r_updated_at := Some now\<rparr> else r) (recipes d)"
  by (simp add: reindexed_def stamped_def replaced_def o_def if_distrib cong: if_cong)

lemma search_texts_reindexed:
  "search_texts (reindexed d rid t sid now) k = (if k = rid then [t] else search_texts d k)"
proof -
  have "filter (\<lambda>x. si_recipe_id x = rid) (filter (\<lambda>x. si_recipe_id x \<noteq> rid) xs) = []" for xs :: "search_index_row list"
    by (induction xs) auto
  moreover have "k \<noteq> rid \<Longrightarrow> filter (\<lambda>x. si_recipe_id x = k) (filter (\<lambda>x. si_recipe_id x \<noteq> rid) xs) = filter (\<lambda>x. si_recipe_id x = k) xs" for xs :: "search_index_row list"
    by (induction xs) auto
  ultimately show ?thesis
    by (simp add: search_texts_def reindexed_def)
qed

lemma search_index_reindexed:
  "recipe_search_index (reindexed d rid t sid now) =
     filter (\<lambda>x. si_recipe_id x \<noteq> rid) (recipe_search_index d) @
       [\<lparr>si_id = sid, si_recipe_id = rid, si_search_text = t, si_created_at = Some now\<rparr>]"
  by (simp add: reindexed_def)

lemma search_index_stamped_replaced:
  "recipe_search_index (stamped (replaced d rid vals) rid now) = recipe_search_index d"
  "search_texts (stamped (replaced d rid vals) rid now) k = search_texts d k"
  by (simp_all add: stamped_def replaced_def search_texts_def)

lemma update_recipe_recipes:
  assumes "update_recipe d rid vals now = Inr d'"
  shows "recipes d' =
     map (\<lambda>r. if r_id r = rid then vals\<lparr>r_id := rid, r_updated_at := Some now\<rparr> else r) (recipes d)"
proof (cases "find (\<lambda>r. r_id r = rid) (recipes d)")
  case None
  then have "\<forall>r \<in> set (recipes d). r_id r \<noteq> rid"
    by (simp add: find_None_iff)
  then have "map (\<lambda>r. if r_id r = rid then vals\<lparr>r_id := rid, r_updated_at := Some now\<rparr> else r)
               (recipes d) = recipes d"
    by (simp add: map_idI)
  with None assms show ?thesis
    by (simp add: update_recipe_def)
next
  case (Some old)
  from update_recipe_Inr [OF assms Some] show ?thesis
    by (auto simp: recipes_after_update)
qed

lemma update_recipe_ok:
  assumes "find (\<lambda>r. r_id r = rid) (recipes d) = Some old"
    and "recipe_checks (vals\<lparr>r_id := rid\<rparr>)"
    and "\<not> (\<exists>r \<in> set (recipes d). r_id r \<noteq> rid \<and> r_slug r = r_slug vals)"
    and "search_text_expr vals = Some t"
  shows "\<exists>d'. update_recipe d rid vals now = Inr d'"
proof -
  have "find (\<lambda>r. r_id r = rid) (recipes (replaced d rid vals)) = Some (vals\<lparr>r_id := rid\<rparr>)"
    using find_replace_row [OF assms(1), of "vals\<lparr>r_id := rid\<rparr>"]
    by (simp add: replaced_def)
  moreover have "search_text_expr (vals\<lparr>r_id := rid\<rparr>) = Some t"
    using assms(4) by (simp add: search_text_expr_def)
  ultimately obtain d' where "fire_after_update_recipes (replaced d rid vals) rid now = Inr d'"
    using fire_after_update_recipes_ok by blast
  with assms(1-3) show ?thesis
    by (simp add: update_recipe_def replaced_def Let_def)
qed

lemma update_recipe_again:
  assumes "update_recipe d rid vals now = Inr d1"
    and "rid \<in> set (map r_id (recipes d))"
  shows "\<exists>d2. update_recipe d1 rid vals now' = Inr d2"
proof -
  from assms(2) obtain old where old: "find (\<lambda>r. r_id r = rid) (recipes d) = Some old"
    unfolding find_recipe_iff by blast
  from update_recipe_Inr [OF assms(1) old] obtain t where t: "search_text_expr vals = Some t"
    by blast
  from assms(1) old have chk: "recipe_checks (vals\<lparr>r_id := rid\<rparr>)"
    and slug: "\<not> (\<exists>r \<in> set (recipes d). r_id r \<noteq> rid \<and> r_slug r = r_slug vals)"
    by (auto simp: update_recipe_def Let_def split: if_splits)
  have rs: "recipes d1 =
     map (\<lambda>r. if r_id r = rid then vals\<lparr>r_id := rid, r_updated_at := Some now\<rparr> else r) (recipes d)"
    by (rule update_recipe_recipes [OF assms(1)])
  have "find (\<lambda>r. r_id r = rid) (recipes d1) = Some (vals\<lparr>r_id := rid, r_updated_at := Some now\<rparr>)"
    unfolding rs using find_replace_row [OF old, of "vals\<lparr>r_id := rid, r_updated_at := Some now\<rparr>"]
    by simp
  moreover from slug have "\<not> (\<exists>r \<in> set (recipes d1). r_id r \<noteq> rid \<and> r_slug r = r_slug vals)"
    unfolding rs by auto
  ultimately show ?thesis
    using update_recipe_ok chk t by blast
qed

lemma update_category_categories:
  assumes "update_category d cid vals now = Inr d'"
  shows "categories d' =
     map (\<lambda>c. if c_id c = cid then vals\<lparr>c_id := cid, c_updated_at := Some now\<rparr> else c)
         (categories d)"
proof (cases "find (\<lambda>c. c_id c = cid) (categories d)")
  case None
  then have "\<forall>c \<in> set (categories d). c_id c \<noteq> cid"
    by (simp add: find_None_iff)
  then have "map (\<lambda>c. if c_id c = cid then vals\<lparr>c_id := cid, c_updated_at := Some now\<rparr> else c)
               (categories d) = categories d"
    by (simp add: map_idI)
  with None assms show ?thesis
    by (simp add: update_category_def)
next
  case (Some old)
  with assms have "d' = fire_after_update_categories
       (d\<lparr>categories := map (\<lambda>c. if c_id c = cid then vals\<lparr>c_id := cid\<rparr> else c) (categories d)\<rparr>)
       cid now"
    by (simp add: update_category_def Let_def split: if_splits)
  then show ?thesis
    by (simp add: categories_fire_after_update_categories o_def if_distrib cong: if_cong)
qed

subsection \<open>The triggers of \<^verbatim>\<open>reviews\<close>\<close>

lemma stamped_absent:
  assumes "find (\<lambda>r. r_id r = rid) (recipes d) = None"
  shows "stamped d rid now = d"
proof -
  from assms have "\<forall>r \<in> set (recipes d). r_id r \<noteq> rid"
    by (simp add: find_None_iff)
  then have "map (\<lambda>r. if r_id r = rid then r\<lparr>r_updated_at := Some now\<rparr> else r) (recipes d) =
             recipes d"
    by (simp add: map_idI)
  then show ?thesis
    by (simp add: stamped_def)
qed

lemma fire_after_update_recipes_frame:
  assumes "fire_after_update_recipes d rid now = Inr d'"
  shows "recipes d' = recipes (stamped d rid now)"
    and "reviews d' = reviews d"
    and "categories d' = categories d"
    and "recipe_categories d' = recipe_categories d"
    and "user_favorites d' = user_favorites d"
    and "seq_reviews d' = seq_reviews d"
proof -
  have "\<exists>t sid. d' = reindexed (stamped d rid now) rid t sid now \<or> d' = stamped d rid now"
  proof (cases "find (\<lambda>r. r_id r = rid) (recipes d)")
    case None
    with assms show ?thesis
      by (simp add: fire_after_update_recipes_None stamped_absent)
  next
    case (Some new)
    from fire_after_update_recipes_Inr [OF Some assms] show ?thesis
      by blast
  qed
  then obtain t sid where
    "d' = reindexed (stamped d rid now) rid t sid now \<or> d' = stamped d rid now"
    by blast
  then show "recipes d' = recipes (stamped d rid now)"
    and "reviews d' = reviews d"
    and "categories d' = categories d"
    and "recipe_categories d' = recipe_categories d"
    and "user_favorites d' = user_favorites d"
    and "seq_reviews d' = seq_reviews d"
    by (auto simp: reindexed_def stamped_def)
qed

lemma rated_row:
  fixes rs :: "recipe list"
  assumes rs: "rs' = map (\<lambda>r. if r_id r = rid then r\<lparr>r_updated_at := Some now\<rparr> else r)
                  (map (\<lambda>r. if r_id r = rid then r\<lparr>r_rating := a, r_review_count := c\<rparr> else r) rs)"
    and r: "r \<in> set rs'" "r_id r = rid"
  shows "r_rating r = a \<and> r_review_count r = c \<and> r_updated_at r = Some now"
proof -
  define h where "h = (\<lambda>r :: recipe. r\<lparr>r_rating := a, r_review_count := c, r_updated_at := Some now\<rparr>)"
  have "rs' = map (\<lambda>r. if r_id r = rid then h r else r) rs"
    unfolding rs h_def by (simp add: o_def if_distrib cong: if_cong)
  with r(1) obtain x where x: "x \<in> set rs" "r = (if r_id x = rid then h x else x)"
    by auto
  have "r_id (h x) = r_id x"
    by (simp add: h_def)
  with x(2) r(2) have "r = h x"
    by (cases "r_id x = rid") auto
  then show ?thesis
    by (simp add: h_def)
qed

lemma sql_avg_mean:
  "xs \<noteq> [] \<Longrightarrow> sql_avg xs = Some (mean xs)"
  "sql_coalesce (sql_avg xs) 0 = Some (mean xs)"
  by (simp_all add: sql_avg_def sql_coalesce_def mean_def)

lemma update_recipe_rating_insert_Inr:
  assumes "update_recipe_rating_insert d new now = Inr d'"
  shows "reviews d' = reviews d"
    and "seq_reviews d' = seq_reviews d"
    and "recipes d' =
      map (\<lambda>r. if r_id r = rv_recipe_id new then r\<lparr>r_updated_at := Some now\<rparr> else r)
        (map (\<lambda>r. if r_id r = rv_recipe_id new
                  then r\<lparr>r_rating := sql_avg (recipe_ratings d (rv_recipe_id new)),
                         r_review_count := Some (int (length (recipe_ratings d (rv_recipe_id new))))\<rparr>
                  else r) (recipes d))"
  using assms fire_after_update_recipes_frame [of _ "rv_recipe_id new" now d']
  by (simp_all add: update_recipe_rating_insert_def Let_def stamped_def)

lemma update_recipe_rating_delete_Inr:
  assumes "update_recipe_rating_delete d old now = Inr d'"
  shows "reviews d' = reviews d"
    and "recipes d' =
      map (\<lambda>r. if r_id r = rv_recipe_id old then r\<lparr>r_updated_at := Some now\<rparr> else r)
        (map (\<lambda>r. if r_id r = rv_recipe_id old
                  then r\<lparr>r_rating := sql_coalesce (sql_avg (recipe_ratings d (rv_recipe_id old))) 0,
                         r_review_count := Some (int (length (recipe_ratings d (rv_recipe_id old))))\<rparr>
                  else r) (recipes d))"
  using assms fire_after_update_recipes_frame [of _ "rv_recipe_id old" now d']
  by (simp_all add: update_recipe_rating_delete_def Let_def stamped_def)

lemma insert_review_Inr:
  assumes "insert_review d rid name email rating title comment status now = Inr d'"
  shows "reviews d' = reviews d @ [new_review d rid name email rating title comment status now]"
    and "seq_reviews d' = rv_id (new_review d rid name email rating title comment status now)"
    and "recipe_ratings d' rid = recipe_ratings d rid @ [rating]"
    and "recipes d' =
      map (\<lambda>r. if r_id r = rid then r\<lparr>r_updated_at := Some now\<rparr> else r)
        (map (\<lambda>r. if r_id r = rid
                  then r\<lparr>r_rating := sql_avg (recipe_ratings d' rid),
                         r_review_count := Some (int (length (recipe_ratings d' rid)))\<rparr>
                  else r) (recipes d))"
    and "1 \<le> rating \<and> rating \<le> 5"
    and "rid \<in> set (map r_id (recipes d))"
proof -
  define new where "new = new_review d rid name email rating title comment status now"
  define d1 where "d1 = d\<lparr>reviews := reviews d @ [new], seq_reviews := rv_id new\<rparr>"
  from assms have chk: "1 \<le> rating \<and> rating \<le> 5" "rid \<in> set (map r_id (recipes d))"
    and trg: "update_recipe_rating_insert d1 new now = Inr d'"
    by (simp_all add: insert_review_def d1_def new_def new_review_def Let_def split: if_splits)
  have rid: "rv_recipe_id new = rid" and rat: "rv_rating new = rating"
    by (simp_all add: new_def new_review_def)
  note frame = update_recipe_rating_insert_Inr [OF trg, unfolded rid]
  show rv: "reviews d' = reviews d @ [new_review d rid name email rating title comment status now]"
    using frame(1) by (simp add: d1_def new_def)
  show "seq_reviews d' = rv_id (new_review d rid name email rating title comment status now)"
    using frame(2) by (simp add: d1_def new_def)
  have rr: "recipe_ratings d1 rid = recipe_ratings d rid @ [rating]"
    by (simp add: recipe_ratings_def d1_def rid rat)
  have same: "recipe_ratings d' rid = recipe_ratings d1 rid"
    using frame(1) by (simp add: recipe_ratings_def)
  with rr show "recipe_ratings d' rid = recipe_ratings d rid @ [rating]"
    by simp
  show "recipes d' =
      map (\<lambda>r. if r_id r = rid then r\<lparr>r_updated_at := Some now\<rparr> else r)
        (map (\<lambda>r. if r_id r = rid
                  then r\<lparr>r_rating := sql_avg (recipe_ratings d' rid),
                         r_review_count := Some (int (length (recipe_ratings d' rid)))\<rparr>
                  else r) (recipes d))"
  proof -
    have e2: "recipe_ratings d1 rid = recipe_ratings d' rid"
      by (simp add: same)
    have e3: "recipes d1 = recipes d"
      by (simp add: d1_def)
    show ?thesis
      unfolding frame(3) e2 e3 by (rule refl)
  qed
  show "1 \<le> rating \<and> rating \<le> 5" "rid \<in> set (map r_id (recipes d))"
    by (rule chk)+
qed

lemma delete_review_Inr:
  assumes "delete_review d vid now = Inr d'"
    and "find (\<lambda>v. rv_id v = vid) (reviews d) = Some old"
  shows "reviews d' = filter (\<lambda>v. rv_id v \<noteq> vid) (reviews d)"
    and "recipes d' =
      map (\<lambda>r. if r_id r = rv_recipe_id old then r\<lparr>r_updated_at := Some now\<rparr> else r)
        (map (\<lambda>r. if r_id r = rv_recipe_id old
                  then r\<lparr>r_rating := Some (mean (recipe_ratings d' (rv_recipe_id old))),
                         r_review_count := Some (int (length (recipe_ratings d' (rv_recipe_id old))))\<rparr>
                  else r) (recipes d))"
proof -
  from assms(2) have vid: "rv_id old = vid"
    by (auto simp: find_Some_iff)
  define d1 where "d1 = d\<lparr>reviews := filter (\<lambda>v. rv_id v \<noteq> vid) (reviews d)\<rparr>"
  from assms have trg: "update_recipe_rating_delete d1 old now = Inr d'"
    by (simp add: delete_review_def delete_reviews_row_def d1_def vid)
  note frame = update_recipe_rating_delete_Inr [OF trg]
  show "reviews d' = filter (\<lambda>v. rv_id v \<noteq> vid) (reviews d)"
    using frame(1) by (simp add: d1_def)
  have same: "recipe_ratings d' k = recipe_ratings d1 k" for k
    using frame(1) by (simp add: recipe_ratings_def)
  show "recipes d' =
      map (\<lambda>r. if r_id r = rv_recipe_id old then r\<lparr>r_updated_at := Some now\<rparr> else r)
        (map (\<lambda>r. if r_id r = rv_recipe_id old
                  then r\<lparr>r_rating := Some (mean (recipe_ratings d' (rv_recipe_id old))),
                         r_review_count := Some (int (length (recipe_ratings d' (rv_recipe_id old))))\<rparr>
                  else r) (recipes d))"
  proof -
    have e2: "recipe_ratings d1 (rv_recipe_id old) = recipe_ratings d' (rv_recipe_id old)"
      by (simp add: same)
    have e3: "recipes d1 = recipes d"
      by (simp add: d1_def)
    show ?thesis
      unfolding frame(2) e2 e3 by (simp only: sql_avg_mean(2))
  qed
qed

lemma insert_review_rating:
  assumes "insert_review d rid name email rating title comment status now = Inr d'"
    and "r \<in> set (recipes d')" "r_id r = rid"
  shows "r_rating r = Some (mean (recipe_ratings d' rid))"
    and "r_review_count r = Some (int (length (recipe_ratings d' rid)))"
    and "r_updated_at r = Some now"
proof -
  note ins = insert_review_Inr [OF assms(1)]
  from ins(3) have "recipe_ratings d' rid \<noteq> []"
    by simp
  then have avg: "sql_avg (recipe_ratings d' rid) = Some (mean (recipe_ratings d' rid))"
    by (rule sql_avg_mean(1))
  from rated_row [OF ins(4) assms(2,3)] avg
  show "r_rating r = Some (mean (recipe_ratings d' rid))"
    and "r_review_count r = Some (int (length (recipe_ratings d' rid)))"
    and "r_updated_at r = Some now"
    by simp_all
qed

lemma delete_review_rating:
  assumes "delete_review d vid now = Inr d'"
    and "find (\<lambda>v. rv_id v = vid) (reviews d) = Some old"
    and "r \<in> set (recipes d')" "r_id r = rv_recipe_id old"
  shows "r_rating r = Some (mean (recipe_ratings d' (rv_recipe_id old)))"
    and "r_review_count r = Some (int (length (recipe_ratings d' (rv_recipe_id old))))"
  using rated_row [OF delete_review_Inr(2) [OF assms(1,2)] assms(3,4)]
  by simp_all

lemma example_first_review:
  "insert_review example_db 1 ''Sarah M.'' None 5 None None None 1 =
     Inr (reviewed_db 5 1 [example_review 1 ''Sarah M.'' 5 ''published'' 1] 1 1)"
  by code_simp

lemma example_second_review:
  "insert_review (reviewed_db 5 1 [example_review 1 ''Sarah M.'' 5 ''published'' 1] 1 1)
       1 ''Mike R.'' None 4 None None None 2 =
     Inr (reviewed_db (9 / 2) 2 [example_review 1 ''Sarah M.'' 5 ''published'' 1,
                                 example_review 2 ''Mike R.'' 4 ''published'' 2] 2 2)"
  by code_simp

lemma example_delete_first:
  "delete_review (reviewed_db (9 / 2) 2 [example_review 1 ''Sarah M.'' 5 ''published'' 1,
                                        example_review 2 ''Mike R.'' 4 ''published'' 2] 2 2) 1 3 =
     Inr (reviewed_db 4 1 [example_review 2 ''Mike R.'' 4 ''published'' 2] 2 3)"
  by code_simp

lemma example_delete_second:
  "delete_review (reviewed_db 4 1 [example_review 2 ''Mike R.'' 4 ''published'' 2] 2 3) 2 4 =
     Inr (reviewed_db 0 0 [] 2 4)"
  by code_simp




subsection \<open>The handler \<^verbatim>\<open>addReview\<close>\<close>

lemma addReview_Created:
  assumes "addReview d slug body now = (Created vid, d')"
  obtains rr name rating where
    "find (\<lambda>r. r_slug r = slug) (recipes d) = Some rr"
    "rb_reviewer_name body = Some name" "name \<noteq> []"
    "rb_rating body = Some rating" "1 \<le> rating" "rating \<le> 5"
    "insert_review d (r_id rr) name (or_null (rb_reviewer_email body)) rating
       (or_null (rb_title body)) (or_null (rb_comment body)) None now = Inr d'"
    "vid = seq_reviews d'"
  using assms
  by (auto simp: addReview_def split: option.splits if_splits sum.splits)

lemma addReview_rejected:
  assumes "addReview d slug body now = (resp, d')" "\<forall>vid. resp \<noteq> Created vid"
  shows "d' = d"
  using assms
  by (auto simp: addReview_def split: option.splits if_splits sum.splits)

lemma addReview_out_of_range:
  assumes "rb_rating body = Some rating" "rating < 1 \<or> 5 < rating"
  shows "addReview d slug body now = (InvalidReviewData, d)"
  using assms
  by (auto simp: addReview_def split: option.splits)

lemma addReview_unknown_recipe:
  assumes "slug \<notin> set (map r_slug (recipes d))"
  shows "addReview d slug body now = (InvalidReviewData, d) \<or>
         addReview d slug body now = (RecipeNotFound, d)"
proof -
  from assms have "find (\<lambda>r. r_slug r = slug) (recipes d) = None"
    by (auto simp: find_None_iff)
  then show ?thesis
    by (auto simp: addReview_def split: option.splits)
qed

subsection \<open>Cascades\<close>

lemma delete_recipe_categories_row_frame:
  "recipe_categories (delete_recipe_categories_row now old d) =
     filter (\<lambda>a. rc_id a \<noteq> rc_id old) (recipe_categories d)"
  "map c_id (categories (delete_recipe_categories_row now old d)) = map c_id (categories d)"
  "recipes (delete_recipe_categories_row now old d) = recipes d"
  "reviews (delete_recipe_categories_row now old d) = reviews d"
  "user_favorites (delete_recipe_categories_row now old d) = user_favorites d"
  "recipe_search_index (delete_recipe_categories_row now old d) = recipe_search_index d"
  by (simp_all add: delete_recipe_categories_row_def recipe_categories_update_category_recipe_count
        categories_update_category_recipe_count o_def if_distrib
        update_category_recipe_count_def fire_after_update_categories_def
        update_category_timestamp_def Let_def split: option.splits cong: if_cong)

lemma fold_delete_recipe_categories_row:
  "recipe_categories (fold (delete_recipe_categories_row now) olds d) =
     filter (\<lambda>a. rc_id a \<notin> rc_id ` set olds) (recipe_categories d)"
  "map c_id (categories (fold (delete_recipe_categories_row now) olds d)) = map c_id (categories d)"
  "recipes (fold (delete_recipe_categories_row now) olds d) = recipes d"
  "reviews (fold (delete_recipe_categories_row now) olds d) = reviews d"
  "user_favorites (fold (delete_recipe_categories_row now) olds d) = user_favorites d"
  "recipe_search_index (fold (delete_recipe_categories_row now) olds d) = recipe_search_index d"
proof (induction olds arbitrary: d)
  case Nil
  {
    case 1 show ?case by simp
  next
    case 2 show ?case by simp
  next
    case 3 show ?case by simp
  next
    case 4 show ?case by simp
  next
    case 5 show ?case by simp
  next
    case 6 show ?case by simp
  }
next
  case (Cons old olds)
  {
    case 1 show ?case
      by (simp add: Cons.IH(1) delete_recipe_categories_row_frame(1) conj_commute)
  next
    case 2 show ?case by (simp add: Cons.IH(2) delete_recipe_categories_row_frame)
  next
    case 3 show ?case by (simp add: Cons.IH(3) delete_recipe_categories_row_frame)
  next
    case 4 show ?case by (simp add: Cons.IH(4) delete_recipe_categories_row_frame)
  next
    case 5 show ?case by (simp add: Cons.IH(5) delete_recipe_categories_row_frame)
  next
    case 6 show ?case by (simp add: Cons.IH(6) delete_recipe_categories_row_frame)
  }
qed

lemma delete_reviews_row_orphan:
  assumes "rv_recipe_id old \<notin> set (map r_id (recipes d))"
  shows "delete_reviews_row now old d =
           Inr (d\<lparr>reviews := filter (\<lambda>v. rv_id v \<noteq> rv_id old) (reviews d)\<rparr>)"
proof -
  from assms have ne: "\<forall>r \<in> set (recipes d). r_id r \<noteq> rv_recipe_id old"
    by force
  then have none: "find (\<lambda>r. r_id r = rv_recipe_id old) (recipes d) = None"
    by (simp add: find_None_iff)
  note ne
  then have "map (\<lambda>r. if r_id r = rv_recipe_id old then g r else r) (recipes d) = recipes d" for g
    by (simp add: map_idI)
  with none show ?thesis
    by (simp add: delete_reviews_row_def update_recipe_rating_delete_def Let_def
                  fire_after_update_recipes_def)
qed

lemma fold_res_delete_reviews_row:
  assumes "rid \<notin> set (map r_id (recipes d))" "\<forall>v \<in> set olds. rv_recipe_id v = rid"
  shows "fold_res (delete_reviews_row now) olds d =
           Inr (d\<lparr>reviews := filter (\<lambda>v. rv_id v \<notin> rv_id ` set olds) (reviews d)\<rparr>)"
  using assms
proof (induction olds arbitrary: d)
  case Nil
  then show ?case by simp
next
  case (Cons old olds)
  from Cons.prems have "rv_recipe_id old \<notin> set (map r_id (recipes d))"
    by simp
  then have step: "delete_reviews_row now old d =
      Inr (d\<lparr>reviews := filter (\<lambda>v. rv_id v \<noteq> rv_id old) (reviews d)\<rparr>)"
    by (rule delete_reviews_row_orphan)
  have "fold_res (delete_reviews_row now) olds
          (d\<lparr>reviews := filter (\<lambda>v. rv_id v \<noteq> rv_id old) (reviews d)\<rparr>) =
        Inr (d\<lparr>reviews := filter (\<lambda>v. rv_id v \<noteq> rv_id old) (reviews d)\<rparr>
              \<lparr>reviews := filter (\<lambda>v. rv_id v \<notin> rv_id ` set olds)
                 (reviews (d\<lparr>reviews := filter (\<lambda>v. rv_id v \<noteq> rv_id old) (reviews d)\<rparr>))\<rparr>)"
    using Cons.prems by (intro Cons.IH) simp_all
  with step show ?case
    by (simp add: bind_res_def conj_commute)
qed

subsection \<open>Seeding the index\<close>

lemma seed_rows_texts:
  assumes "seed_rows n rs now = Inr rows"
  shows "map Some (map si_search_text (filter (\<lambda>x. si_recipe_id x = k) rows)) =
         map search_text_expr (filter (\<lambda>r. r_id r = k) rs)"
  using assms
proof (induction rs arbitrary: n rows)
  case Nil
  then show ?case by simp
next
  case (Cons r rs)
  from Cons.prems obtain t rows' where t: "search_text_expr r = Some t"
    and rows': "seed_rows (n + 1) rs now = Inr rows'"
    and rows: "rows = \<lparr>si_id = n + 1, si_recipe_id = r_id r, si_search_text = t,
                        si_created_at = Some now\<rparr> # rows'"
    by (auto simp: bind_res_def split: option.splits sum.splits)
  from Cons.IH [OF rows'] show ?case
    by (simp add: rows t)
qed

lemma filter_distinct_key:
  assumes "distinct (map f xs)" "x \<in> set xs"
  shows "filter (\<lambda>y. f y = f x) xs = [x]"
  using assms
proof (induction xs)
  case Nil
  then show ?case by simp
next
  case (Cons a xs)
  show ?case
  proof (cases "a = x")
    case True
    with Cons.prems(1) have "f x \<notin> f ` set xs"
      by simp
    then have "\<forall>y \<in> set xs. f y \<noteq> f x"
      by (metis image_eqI)
    then have "filter (\<lambda>y. f y = f x) xs = []"
      by (simp add: filter_empty_conv)
    with True show ?thesis by simp
  next
    case False
    with Cons.prems have "x \<in> set xs" "f a \<noteq> f x"
      by auto
    with Cons show ?thesis by simp
  qed
qed

lemma seed_search_index_Inr:
  assumes "seed_search_index d now = Inr d'"
  obtains n rows where "seed_rows n (recipes d) now = Inr rows"
    "recipe_search_index d' = recipe_search_index d @ rows" "recipes d' = recipes d"
  using assms
  by (auto simp: seed_search_index_def Let_def bind_res_def split: sum.splits)

lemma search_texts_other:
  assumes "update_recipe d rid vals now = Inr d'" "k \<noteq> rid"
  shows "search_texts d' k = search_texts d k"
proof (cases "find (\<lambda>r. r_id r = rid) (recipes d)")
  case None
  with assms(1) show ?thesis
    by (simp add: update_recipe_def)
next
  case (Some old)
  from update_recipe_Inr [OF assms(1) Some] assms(2) show ?thesis
    by (auto simp: search_texts_reindexed search_index_stamped_replaced)
qed

subsection \<open>The index rows under each statement\<close>

lemma fold_max_start: "s \<le> fold max ids (s::int)"
proof (induction ids arbitrary: s)
  case Nil
  show ?case by simp
next
  case (Cons i ids)
  have "s \<le> max i s" by simp
  also have "\<dots> \<le> fold max ids (max i s)" by (rule Cons.IH)
  finally show ?case by simp
qed

lemma fold_max_ge: "x \<in> set ids \<Longrightarrow> x \<le> fold max ids (s::int)"
proof (induction ids arbitrary: s)
  case Nil
  then show ?case by simp
next
  case (Cons i ids)
  show ?case
  proof (cases "x = i")
    case True
    have "i \<le> max i s" by simp
    also have "\<dots> \<le> fold max ids (max i s)" by (rule fold_max_start)
    finally show ?thesis using True by simp
  next
    case False
    with Cons.prems have "x \<in> set ids" by simp
    then show ?thesis by (simp add: Cons.IH)
  qed
qed

lemma next_rowid_fresh: "next_rowid s ids \<notin> set ids"
proof
  assume "next_rowid s ids \<in> set ids"
  then have "next_rowid s ids \<le> fold max ids s"
    by (rule fold_max_ge)
  then show False
    by (simp add: next_rowid_def)
qed

lemma insert_recipe_Inr:
  assumes "insert_recipe d vals = Inr d'"
  obtains nid where "recipes d' = recipes d @ [vals\<lparr>r_id := nid\<rparr>]"
    "nid \<notin> set (map r_id (recipes d))" "recipe_search_index d' = recipe_search_index d"
proof -
  define nid where "nid = next_rowid (seq_recipes d) (map r_id (recipes d))"
  have "nid \<notin> set (map r_id (recipes d))"
    unfolding nid_def by (rule next_rowid_fresh)
  moreover from assms have "recipes d' = recipes d @ [vals\<lparr>r_id := nid\<rparr>]"
    "recipe_search_index d' = recipe_search_index d"
    by (auto simp: insert_recipe_def Let_def nid_def split: if_splits)
  ultimately show thesis
    using that by blast
qed

lemma search_texts_cong:
  "recipe_search_index d' = recipe_search_index d \<Longrightarrow> search_texts d' k = search_texts d k"
  by (simp add: search_texts_def)

lemma search_texts_stamped: "search_texts (stamped d rid now) k = search_texts d k"
  by (simp add: search_texts_def stamped_def)

lemma fire_index:
  assumes "fire_after_update_recipes d rid now = Inr d'"
  shows "j \<noteq> rid \<Longrightarrow> search_texts d' j = search_texts d j"
    and "find (\<lambda>r. r_id r = rid) (recipes d) = Some first \<Longrightarrow>
           map Some (search_texts d' rid) = [search_text_expr first]"
proof -
  show "search_texts d' j = search_texts d j" if "j \<noteq> rid"
  proof (cases "find (\<lambda>r. r_id r = rid) (recipes d)")
    case None
    with assms show ?thesis
      by (simp add: fire_after_update_recipes_None)
  next
    case (Some new)
    from fire_after_update_recipes_Inr [OF Some assms] that show ?thesis
      by (auto simp: search_texts_reindexed search_texts_stamped)
  qed
  show "map Some (search_texts d' rid) = [search_text_expr first]"
    if "find (\<lambda>r. r_id r = rid) (recipes d) = Some first"
    using fire_after_update_recipes_Inr [OF that assms]
    by (auto simp: search_texts_reindexed)
qed

lemma rated_rows:
  fixes rs :: "recipe list"
  assumes rs: "rs' = map (\<lambda>r. if r_id r = rid then r\<lparr>r_updated_at := Some now\<rparr> else r)
                  (map (\<lambda>r. if r_id r = rid then r\<lparr>r_rating := a, r_review_count := c\<rparr> else r) rs)"
    and r: "r \<in> set rs'"
  shows "\<exists>r0 \<in> set rs. r_id r0 = r_id r \<and> search_text_expr r0 = search_text_expr r \<and>
           (r_id r \<noteq> rid \<longrightarrow> r = r0)"
proof -
  define h where "h = (\<lambda>r :: recipe. r\<lparr>r_rating := a, r_review_count := c, r_updated_at := Some now\<rparr>)"
  have "rs' = map (\<lambda>r. if r_id r = rid then h r else r) rs"
    unfolding rs h_def by (simp add: o_def if_distrib cong: if_cong)
  with r obtain x where x: "x \<in> set rs" "r = (if r_id x = rid then h x else x)"
    by auto
  have h: "r_id (h x) = r_id x" "search_text_expr (h x) = search_text_expr x"
    by (simp_all add: h_def search_text_expr_def)
  show ?thesis
  proof (cases "r_id x = rid")
    case True
    with x(2) have "r = h x" by simp
    with h True x(1) show ?thesis by auto
  next
    case False
    with x(2) have "r = x" by simp
    with x(1) show ?thesis by auto
  qed
qed

lemma find_rated:
  fixes rs :: "recipe list"
  shows "find (\<lambda>r. r_id r = rid)
           (map (\<lambda>r. if r_id r = rid then r\<lparr>r_rating := a, r_review_count := c\<rparr> else r) rs) =
         map_option (\<lambda>r. r\<lparr>r_rating := a, r_review_count := c\<rparr>) (find (\<lambda>r. r_id r = rid) rs)"
  by (rule find_map_same_id) simp

lemma update_recipe_rating_insert_index:
  assumes "update_recipe_rating_insert d new now = Inr d'"
  shows "j \<noteq> rv_recipe_id new \<Longrightarrow> search_texts d' j = search_texts d j"
    and "find (\<lambda>r. r_id r = rv_recipe_id new) (recipes d) = Some first \<Longrightarrow>
           map Some (search_texts d' (rv_recipe_id new)) = [search_text_expr first]"
proof -
  define rid where "rid = rv_recipe_id new"
  define a where "a = sql_avg (recipe_ratings d (rv_recipe_id new))"
  define c where "c = Some (int (length (recipe_ratings d (rv_recipe_id new))))"
  define d1 where "d1 = d\<lparr>recipes :=
      map (\<lambda>r. if r_id r = rid then r\<lparr>r_rating := a, r_review_count := c\<rparr> else r) (recipes d)\<rparr>"
  from assms have fire: "fire_after_update_recipes d1 rid now = Inr d'"
    unfolding update_recipe_rating_insert_def Let_def d1_def rid_def a_def c_def .
  have t: "search_texts d1 k = search_texts d k" for k
    by (simp add: search_texts_def d1_def)
  show "search_texts d' j = search_texts d j" if "j \<noteq> rv_recipe_id new"
    using fire_index(1) [OF fire, of j] that by (simp add: t rid_def)
  show "map Some (search_texts d' (rv_recipe_id new)) = [search_text_expr first]"
    if "find (\<lambda>r. r_id r = rv_recipe_id new) (recipes d) = Some first"
  proof -
    from that have "find (\<lambda>r. r_id r = rid) (recipes d1) =
        Some (first\<lparr>r_rating := a, r_review_count := c\<rparr>)"
      by (simp add: d1_def find_rated rid_def)
    from fire_index(2) [OF fire this] show ?thesis
      by (simp add: rid_def search_text_expr_def)
  qed
qed

lemma update_recipe_rating_delete_index:
  assumes "update_recipe_rating_delete d old now = Inr d'"
  shows "j \<noteq> rv_recipe_id old \<Longrightarrow> search_texts d' j = search_texts d j"
    and "find (\<lambda>r. r_id r = rv_recipe_id old) (recipes d) = Some first \<Longrightarrow>
           map Some (search_texts d' (rv_recipe_id old)) = [search_text_expr first]"
proof -
  define rid where "rid = rv_recipe_id old"
  define a where "a = sql_coalesce (sql_avg (recipe_ratings d (rv_recipe_id old))) 0"
  define c where "c = Some (int (length (recipe_ratings d (rv_recipe_id old))))"
  define d1 where "d1 = d\<lparr>recipes :=
      map (\<lambda>r. if r_id r = rid then r\<lparr>r_rating := a, r_review_count := c\<rparr> else r) (recipes d)\<rparr>"
  from assms have fire: "fire_after_update_recipes d1 rid now = Inr d'"
    unfolding update_recipe_rating_delete_def Let_def d1_def rid_def a_def c_def .
  have t: "search_texts d1 k = search_texts d k" for k
    by (simp add: search_texts_def d1_def)
  show "search_texts d' j = search_texts d j" if "j \<noteq> rv_recipe_id old"
    using fire_index(1) [OF fire, of j] that by (simp add: t rid_def)
  show "map Some (search_texts d' (rv_recipe_id old)) = [search_text_expr first]"
    if "find (\<lambda>r. r_id r = rv_recipe_id old) (recipes d) = Some first"
  proof -
    from that have "find (\<lambda>r. r_id r = rid) (recipes d1) =
        Some (first\<lparr>r_rating := a, r_review_count := c\<rparr>)"
      by (simp add: d1_def find_rated rid_def)
    from fire_index(2) [OF fire this] show ?thesis
      by (simp add: rid_def search_text_expr_def)
  qed
qed

lemma insert_review_index:
  assumes "insert_review d rid name email rating title comment status now = Inr d'"
  shows "j \<noteq> rid \<Longrightarrow> search_texts d' j = search_texts d j"
    and "find (\<lambda>r. r_id r = rid) (recipes d) = Some first \<Longrightarrow>
           map Some (search_texts d' rid) = [search_text_expr first]"
proof -
  define new where "new = new_review d rid name email rating title comment status now"
  define d1 where "d1 = d\<lparr>reviews := reviews d @ [new], seq_reviews := rv_id new\<rparr>"
  from assms have trg: "update_recipe_rating_insert d1 new now = Inr d'"
    by (simp add: insert_review_def d1_def new_def new_review_def Let_def split: if_splits)
  have rid: "rv_recipe_id new = rid"
    by (simp add: new_def new_review_def)
  have t: "search_texts d1 k = search_texts d k" for k
    by (simp add: search_texts_def d1_def)
  have r: "recipes d1 = recipes d"
    by (simp add: d1_def)
  show "j \<noteq> rid \<Longrightarrow> search_texts d' j = search_texts d j"
    using update_recipe_rating_insert_index(1) [OF trg, of j] by (simp add: rid t)
  show "find (\<lambda>r. r_id r = rid) (recipes d) = Some first \<Longrightarrow>
           map Some (search_texts d' rid) = [search_text_expr first]"
    using update_recipe_rating_insert_index(2) [OF trg, of first] by (simp add: rid r)
qed

lemma delete_review_index:
  assumes "delete_review d vid now = Inr d'"
    and "find (\<lambda>v. rv_id v = vid) (reviews d) = Some old"
  shows "j \<noteq> rv_recipe_id old \<Longrightarrow> search_texts d' j = search_texts d j"
    and "find (\<lambda>r. r_id r = rv_recipe_id old) (recipes d) = Some first \<Longrightarrow>
           map Some (search_texts d' (rv_recipe_id old)) = [search_text_expr first]"
proof -
  define d1 where "d1 = d\<lparr>reviews := filter (\<lambda>v. rv_id v \<noteq> rv_id old) (reviews d)\<rparr>"
  from assms have trg: "update_recipe_rating_delete d1 old now = Inr d'"
    by (simp add: delete_review_def delete_reviews_row_def d1_def)
  have t: "search_texts d1 k = search_texts d k" for k
    by (simp add: search_texts_def d1_def)
  have r: "recipes d1 = recipes d"
    by (simp add: d1_def)
  show "j \<noteq> rv_recipe_id old \<Longrightarrow> search_texts d' j = search_texts d j"
    using update_recipe_rating_delete_index(1) [OF trg, of j] by (simp add: t)
  show "find (\<lambda>r. r_id r = rv_recipe_id old) (recipes d) = Some first \<Longrightarrow>
           map Some (search_texts d' (rv_recipe_id old)) = [search_text_expr first]"
    using update_recipe_rating_delete_index(2) [OF trg, of first] by (simp add: r)
qed

lemma delete_review_None:
  "find (\<lambda>v. rv_id v = vid) (reviews d) = None \<Longrightarrow> delete_review d vid now = Inr d"
  by (simp add: delete_review_def)

lemma delete_recipe_Inr:
  assumes "delete_recipe d rid now = Inr d'"
  shows "recipes d' = filter (\<lambda>r. r_id r \<noteq> rid) (recipes d)"
    and "recipe_search_index d' = filter (\<lambda>x. si_recipe_id x \<noteq> rid) (recipe_search_index d) \<or>
         recipe_search_index d' = recipe_search_index d"
    and "k \<noteq> rid \<Longrightarrow> search_texts d' k = search_texts d k"
proof -
  have "recipes d' = filter (\<lambda>r. r_id r \<noteq> rid) (recipes d) \<and>
        (recipe_search_index d' = filter (\<lambda>x. si_recipe_id x \<noteq> rid) (recipe_search_index d) \<or>
         recipe_search_index d' = recipe_search_index d)"
  proof (cases "find (\<lambda>r. r_id r = rid) (recipes d)")
    case None
    then have "\<forall>r \<in> set (recipes d). r_id r \<noteq> rid"
      by (simp add: find_None_iff)
    then have "filter (\<lambda>r. r_id r \<noteq> rid) (recipes d) = recipes d"
      by (simp add: filter_id_conv)
    with None assms show ?thesis
      by (simp add: delete_recipe_def)
  next
    case (Some old)
    define d1 where "d1 = d\<lparr>recipes := filter (\<lambda>r. r_id r \<noteq> rid) (recipes d)\<rparr>"
    define d2 where "d2 = fold (delete_recipe_categories_row now)
                       (filter (\<lambda>a. rc_recipe_id a = rid) (recipe_categories d1)) d1"
    define d3 where "d3 = d2\<lparr>reviews := filter (\<lambda>v. rv_id v \<notin> rv_id ` set
                       (filter (\<lambda>v. rv_recipe_id v = rid) (reviews d2))) (reviews d2)\<rparr>"
    have r2: "recipes d2 = filter (\<lambda>r. r_id r \<noteq> rid) (recipes d)"
      by (simp add: d2_def fold_delete_recipe_categories_row(3)) (simp add: d1_def)
    have i2: "recipe_search_index d2 = recipe_search_index d"
      by (simp add: d2_def fold_delete_recipe_categories_row(6)) (simp add: d1_def)
    from r2 have "rid \<notin> set (map r_id (recipes d2))"
      by auto
    then have "fold_res (delete_reviews_row now)
                 (filter (\<lambda>v. rv_recipe_id v = rid) (reviews d2)) d2 = Inr d3"
      unfolding d3_def by (rule fold_res_delete_reviews_row) simp
    with Some assms have "d' = d3\<lparr>user_favorites :=
                               filter (\<lambda>u. uf_recipe_id u \<noteq> rid) (user_favorites d3),
                             recipe_search_index :=
                               filter (\<lambda>x. si_recipe_id x \<noteq> rid) (recipe_search_index d3)\<rparr>"
      by (simp add: delete_recipe_def Let_def bind_res_def d1_def [symmetric] d2_def [symmetric])
    then show ?thesis
      by (simp add: d3_def r2 i2)
  qed
  then show "recipes d' = filter (\<lambda>r. r_id r \<noteq> rid) (recipes d)"
    and idx: "recipe_search_index d' = filter (\<lambda>x. si_recipe_id x \<noteq> rid) (recipe_search_index d) \<or>
         recipe_search_index d' = recipe_search_index d"
    by simp_all
  have "filter (\<lambda>x. si_recipe_id x = k) (filter (\<lambda>x. si_recipe_id x \<noteq> rid) xs) =
        filter (\<lambda>x. si_recipe_id x = k) xs" if "k \<noteq> rid" for xs :: "search_index_row list"
    using that by (induction xs) auto
  with idx show "k \<noteq> rid \<Longrightarrow> search_texts d' k = search_texts d k"
    by (auto simp: search_texts_def)
qed

lemma category_statements_frame:
  "insert_recipe_category d rid cid now = Inr d' \<Longrightarrow>
     recipes d' = recipes d \<and> recipe_search_index d' = recipe_search_index d"
  "recipes (delete_recipe_category d aid now) = recipes d \<and>
     recipe_search_index (delete_recipe_category d aid now) = recipe_search_index d"
  "update_category d cid vals now = Inr d' \<Longrightarrow>
     recipes d' = recipes d \<and> recipe_search_index d' = recipe_search_index d"
  "delete_category d cid now = Inr d' \<Longrightarrow>
     recipes d' = recipes d \<and> recipe_search_index d' = recipe_search_index d"
proof -
  have f: "recipes (fire_after_update_categories x c n) = recipes x \<and>
           recipe_search_index (fire_after_update_categories x c n) = recipe_search_index x"
    for x c n
    by (simp add: fire_after_update_categories_def update_category_timestamp_def
             split: option.splits)
  have u: "recipes (update_category_recipe_count x c n) = recipes x \<and>
           recipe_search_index (update_category_recipe_count x c n) = recipe_search_index x"
    for x c n
    by (simp add: update_category_recipe_count_def Let_def f)
  show "insert_recipe_category d rid cid now = Inr d' \<Longrightarrow>
     recipes d' = recipes d \<and> recipe_search_index d' = recipe_search_index d"
    by (auto simp: insert_recipe_category_def Let_def u split: if_splits)
  show "recipes (delete_recipe_category d aid now) = recipes d \<and>
     recipe_search_index (delete_recipe_category d aid now) = recipe_search_index d"
    by (simp add: delete_recipe_category_def delete_recipe_categories_row_frame
             split: option.splits)
  show "update_category d cid vals now = Inr d' \<Longrightarrow>
     recipes d' = recipes d \<and> recipe_search_index d' = recipe_search_index d"
    by (auto simp: update_category_def Let_def f split: option.splits if_splits)
  show "delete_category d cid now = Inr d' \<Longrightarrow>
     recipes d' = recipes d \<and> recipe_search_index d' = recipe_search_index d"
    by (auto simp: delete_category_def Let_def fold_delete_recipe_categories_row
             split: option.splits if_splits)
qed

lemma addReview_cases:
  assumes "addReview d slug body now = (resp, d')"
  shows "d' = d \<or>
         (\<exists>rr name rating. find (\<lambda>r. r_slug r = slug) (recipes d) = Some rr \<and>
            insert_review d (r_id rr) name (or_null (rb_reviewer_email body)) rating
              (or_null (rb_title body)) (or_null (rb_comment body)) None now = Inr d')"
  using assms
  by (auto simp: addReview_def split: option.splits if_splits sum.splits)

lemma in_replaced_rows:
  fixes rs :: "recipe list"
  assumes "r \<in> set (map (\<lambda>x. if r_id x = rid then new else x) rs)" "r_id r \<noteq> rid"
    "r_id new = rid"
  shows "r \<in> set rs"
proof -
  from assms(1) obtain x where x: "x \<in> set rs" "r = (if r_id x = rid then new else x)"
    by auto
  with assms(2,3) have "r = x"
    by (cases "r_id x = rid") auto
  with x(1) show ?thesis by simp
qed

lemma untouched_texts:
  assumes "run s now d = Inr d'" "\<not> touches s d k"
  shows "search_texts d' k = search_texts d k"
proof (cases s)
  case (UpdateRecipe rid vals)
  with assms show ?thesis
    by (auto intro: search_texts_other)
next
  case (InsertRecipe vals)
  with assms show ?thesis
    by (auto elim!: insert_recipe_Inr intro: search_texts_cong)
next
  case (DeleteRecipe rid)
  with assms show ?thesis
    by (auto intro: delete_recipe_Inr(3))
next
  case (InsertReview rid name email rating title comment status)
  with assms show ?thesis
    by (auto intro: insert_review_index(1))
next
  case (DeleteReview vid)
  show ?thesis
  proof (cases "find (\<lambda>v. rv_id v = vid) (reviews d)")
    case None
    with DeleteReview assms show ?thesis
      by (simp add: delete_review_None)
  next
    case (Some old)
    with DeleteReview assms have del: "delete_review d vid now = Inr d'"
      and ne: "k \<noteq> rv_recipe_id old"
      by auto
    show ?thesis
      by (rule delete_review_index(1) [OF del Some ne])
  qed
next
  case (AddReview slug body)
  with assms have "addReview d slug body now = (fst (addReview d slug body now), d')"
    by (auto simp: prod_eq_iff)
  from addReview_cases [OF this] show ?thesis
  proof
    assume "d' = d"
    then show ?thesis by simp
  next
    assume "\<exists>rr name rating. find (\<lambda>r. r_slug r = slug) (recipes d) = Some rr \<and>
            insert_review d (r_id rr) name (or_null (rb_reviewer_email body)) rating
              (or_null (rb_title body)) (or_null (rb_comment body)) None now = Inr d'"
    then obtain rr name rating where rr: "find (\<lambda>r. r_slug r = slug) (recipes d) = Some rr"
      and ins: "insert_review d (r_id rr) name (or_null (rb_reviewer_email body)) rating
              (or_null (rb_title body)) (or_null (rb_comment body)) None now = Inr d'"
      by blast
    from rr AddReview assms(2) have "k \<noteq> r_id rr"
      by auto
    then show ?thesis
      by (rule insert_review_index(1) [OF ins])
  qed
next
  case (InsertRecipeCategory rid cid)
  with assms show ?thesis
    by (auto dest: category_statements_frame(1) intro: search_texts_cong)
next
  case (DeleteRecipeCategory aid)
  with assms show ?thesis
    by (auto simp: category_statements_frame(2) intro: search_texts_cong)
next
  case (UpdateCategory cid vals)
  with assms show ?thesis
    by (auto dest: category_statements_frame(3) intro: search_texts_cong)
next
  case (DeleteCategory cid)
  with assms show ?thesis
    by (auto dest: category_statements_frame(4) intro: search_texts_cong)
qed

lemma insert_review_rows:
  assumes "insert_review d rid name email rating title comment status now = Inr d'"
    and "r \<in> set (recipes d')"
  shows "\<exists>r0 \<in> set (recipes d). r_id r0 = r_id r \<and> search_text_expr r0 = search_text_expr r \<and>
           (r_id r \<noteq> rid \<longrightarrow> r = r0)"
  by (rule rated_rows [OF insert_review_Inr(4) [OF assms(1)] assms(2)])

lemma delete_review_rows:
  assumes "delete_review d vid now = Inr d'"
    and "find (\<lambda>v. rv_id v = vid) (reviews d) = Some old"
    and "r \<in> set (recipes d')"
  shows "\<exists>r0 \<in> set (recipes d). r_id r0 = r_id r \<and> search_text_expr r0 = search_text_expr r \<and>
           (r_id r \<noteq> rv_recipe_id old \<longrightarrow> r = r0)"
  by (rule rated_rows [OF delete_review_Inr(2) [OF assms(1,2)] assms(3)])

lemma untouched_rows:
  assumes "run s now d = Inr d'" "\<not> touches s d k"
    and "r \<in> set (recipes d')" "r_id r = k" "k \<in> set (map r_id (recipes d))"
  shows "r \<in> set (recipes d)"
proof (cases s)
  case (UpdateRecipe rid vals)
  with assms have u: "update_recipe d rid vals now = Inr d'" and ne: "r_id r \<noteq> rid"
    by auto
  from assms(3) show ?thesis
    unfolding update_recipe_recipes [OF u]
    by (rule in_replaced_rows) (simp_all add: ne)
next
  case (InsertRecipe vals)
  with assms(1) obtain nid where "recipes d' = recipes d @ [vals\<lparr>r_id := nid\<rparr>]"
    "nid \<notin> set (map r_id (recipes d))"
    by (auto elim: insert_recipe_Inr)
  with assms(3,4,5) show ?thesis
    by auto
next
  case (DeleteRecipe rid)
  with assms show ?thesis
    by (auto simp: delete_recipe_Inr(1))
next
  case (InsertReview rid name email rating title comment status)
  with assms have "insert_review d rid name email rating title comment status now = Inr d'"
    "r_id r \<noteq> rid"
    by auto
  with insert_review_rows [OF this(1) assms(3)] show ?thesis
    by auto
next
  case (DeleteReview vid)
  show ?thesis
  proof (cases "find (\<lambda>v. rv_id v = vid) (reviews d)")
    case None
    with DeleteReview assms show ?thesis
      by (simp add: delete_review_None)
  next
    case (Some old)
    with DeleteReview assms have del: "delete_review d vid now = Inr d'"
      and ne: "r_id r \<noteq> rv_recipe_id old"
      by auto
    with delete_review_rows [OF del Some assms(3)] show ?thesis
      by auto
  qed
next
  case (AddReview slug body)
  with assms have "addReview d slug body now = (fst (addReview d slug body now), d')"
    by (auto simp: prod_eq_iff)
  from addReview_cases [OF this] show ?thesis
  proof
    assume "d' = d"
    with assms(3) show ?thesis by simp
  next
    assume "\<exists>rr name rating. find (\<lambda>r. r_slug r = slug) (recipes d) = Some rr \<and>
            insert_review d (r_id rr) name (or_null (rb_reviewer_email body)) rating
              (or_null (rb_title body)) (or_null (rb_comment body)) None now = Inr d'"
    then obtain rr name rating where rr: "find (\<lambda>r. r_slug r = slug) (recipes d) = Some rr"
      and ins: "insert_review d (r_id rr) name (or_null (rb_reviewer_email body)) rating
              (or_null (rb_title body)) (or_null (rb_comment body)) None now = Inr d'"
      by blast
    from rr AddReview assms(2,4) have "r_id r \<noteq> r_id rr"
      by auto
    with insert_review_rows [OF ins assms(3)] show ?thesis
      by auto
  qed
next
  case (InsertRecipeCategory rid cid)
  with assms show ?thesis
    by (auto dest: category_statements_frame(1))
next
  case (DeleteRecipeCategory aid)
  with assms show ?thesis
    by (auto simp: category_statements_frame(2))
next
  case (UpdateCategory cid vals)
  with assms show ?thesis
    by (auto dest: category_statements_frame(3))
next
  case (DeleteCategory cid)
  with assms show ?thesis
    by (auto dest: category_statements_frame(4))
qed

lemma update_recipe_current:
  assumes a: "update_recipe d rid vals now = Inr d'"
    and r: "r \<in> set (recipes d')" and id: "r_id r = rid"
  shows "search_index_current d' r"
proof -
  define new where "new = vals\<lparr>r_id := rid, r_updated_at := Some now\<rparr>"
  have rs: "recipes d' = map (\<lambda>r. if r_id r = rid then new else r) (recipes d)"
    unfolding new_def by (rule update_recipe_recipes [OF a])
  from r rs obtain x where x: "x \<in> set (recipes d)"
    "r = (if r_id x = rid then new else x)"
    by auto
  with id have "r_id x = rid"
    by (cases "r_id x = rid") auto
  with x have "r = new" and "rid \<in> set (map r_id (recipes d))"
    by (simp, metis image_eqI set_map)
  then obtain old where "find (\<lambda>r. r_id r = rid) (recipes d) = Some old"
    unfolding find_recipe_iff by blast
  from update_recipe_Inr [OF a this] obtain t sid where
    "search_text_expr vals = Some t"
    "d' = reindexed (stamped (replaced d rid vals) rid now) rid t sid now"
    by blast
  moreover have "search_text_expr new = search_text_expr vals"
    by (simp add: new_def search_text_expr_def)
  ultimately show "search_index_current d' r"
    using \<open>r = new\<close> id
    by (simp add: search_index_current_def search_texts_reindexed)
qed

lemma review_rows_first:
  assumes rows: "\<exists>r0 \<in> set (recipes d). r_id r0 = r_id r \<and>
                   search_text_expr r0 = search_text_expr r \<and> (r_id r \<noteq> k \<longrightarrow> r = r0)"
    and idx: "\<And>first. find (\<lambda>r. r_id r = k) (recipes d) = Some first \<Longrightarrow>
                map Some (search_texts d' k) = [search_text_expr first]"
    and id: "r_id r = k"
  shows "\<exists>first r0. find (\<lambda>r. r_id r = k) (recipes d) = Some first \<and>
           r0 \<in> set (recipes d) \<and> r_id r0 = k \<and>
           search_text_expr r0 = search_text_expr r \<and>
           map Some (search_texts d' k) = [search_text_expr first]"
proof -
  from rows id obtain r0 where r0: "r0 \<in> set (recipes d)" "r_id r0 = k"
    "search_text_expr r0 = search_text_expr r"
    by auto
  then have "k \<in> set (map r_id (recipes d))"
    by (metis image_eqI set_map)
  then obtain first where f: "find (\<lambda>r. r_id r = k) (recipes d) = Some first"
    unfolding find_recipe_iff by blast
  show ?thesis
  proof (intro exI conjI)
    show "find (\<lambda>r. r_id r = k) (recipes d) = Some first" by (rule f)
    show "r0 \<in> set (recipes d)" by (rule r0(1))
    show "r_id r0 = k" by (rule r0(2))
    show "search_text_expr r0 = search_text_expr r" by (rule r0(3))
    show "map Some (search_texts d' k) = [search_text_expr first]" by (rule idx [OF f])
  qed
qed

lemma touched_rows:
  assumes "run s now d = Inr d'" "touches s d k"
    and "r \<in> set (recipes d')" "r_id r = k"
  shows "search_index_current d' r \<or> d' = d \<or>
         (\<exists>first r0. find (\<lambda>r. r_id r = k) (recipes d) = Some first \<and>
            r0 \<in> set (recipes d) \<and> r_id r0 = k \<and>
            search_text_expr r0 = search_text_expr r \<and>
            map Some (search_texts d' k) = [search_text_expr first])"
proof (cases s)
  case (UpdateRecipe rid vals)
  with assms have "update_recipe d k vals now = Inr d'"
    by auto
  from update_recipe_current [OF this assms(3,4)] show ?thesis
    by simp
next
  case (DeleteRecipe rid)
  with assms have "delete_recipe d k now = Inr d'"
    by auto
  from delete_recipe_Inr(1) [OF this] assms(3,4) show ?thesis
    by auto
next
  case (InsertReview rid name email rating title comment status)
  with assms have ins: "insert_review d k name email rating title comment status now = Inr d'"
    by auto
  from review_rows_first [OF insert_review_rows [OF ins assms(3)]
      insert_review_index(2) [OF ins] assms(4)]
  show ?thesis
    by blast
next
  case (DeleteReview vid)
  with assms obtain old where old: "find (\<lambda>v. rv_id v = vid) (reviews d) = Some old"
    and k: "rv_recipe_id old = k" and del: "delete_review d vid now = Inr d'"
    by (auto split: option.splits)
  from review_rows_first [OF delete_review_rows [OF del old assms(3), unfolded k]
      delete_review_index(2) [OF del old, unfolded k] assms(4)]
  show ?thesis
    by blast
next
  case (AddReview slug body)
  with assms have "addReview d slug body now = (fst (addReview d slug body now), d')"
    by (auto simp: prod_eq_iff)
  from addReview_cases [OF this] show ?thesis
  proof
    assume "d' = d"
    then show ?thesis by simp
  next
    assume "\<exists>rr name rating. find (\<lambda>r. r_slug r = slug) (recipes d) = Some rr \<and>
            insert_review d (r_id rr) name (or_null (rb_reviewer_email body)) rating
              (or_null (rb_title body)) (or_null (rb_comment body)) None now = Inr d'"
    then obtain rr name rating where rr: "find (\<lambda>r. r_slug r = slug) (recipes d) = Some rr"
      and ins: "insert_review d (r_id rr) name (or_null (rb_reviewer_email body)) rating
              (or_null (rb_title body)) (or_null (rb_comment body)) None now = Inr d'"
      by blast
    from rr AddReview assms(2) have k: "r_id rr = k"
      by auto
    from review_rows_first [OF insert_review_rows [OF ins assms(3), unfolded k]
      insert_review_index(2) [OF ins, unfolded k] assms(4)]
    show ?thesis
      by blast
  qed
next
  case (InsertRecipe vals)
  with assms(2) show ?thesis by simp
next
  case (InsertRecipeCategory rid cid)
  with assms(2) show ?thesis by simp
next
  case (DeleteRecipeCategory aid)
  with assms(2) show ?thesis by simp
next
  case (UpdateCategory cid vals)
  with assms(2) show ?thesis by simp
next
  case (DeleteCategory cid)
  with assms(2) show ?thesis by simp
qed

lemma statement_keeps_current:
  assumes run: "run s now d = Inr d'" and r: "r \<in> set (recipes d')"
    and ex: "r_id r \<in> set (map r_id (recipes d))"
    and cur: "\<forall>r0 \<in> set (recipes d). r_id r0 = r_id r \<longrightarrow> search_index_current d r0"
  shows "search_index_current d' r"
proof (cases "touches s d (r_id r)")
  case False
  from untouched_rows [OF run False r refl ex] have "r \<in> set (recipes d)" .
  with cur have "search_index_current d r"
    by simp
  with untouched_texts [OF run False] show ?thesis
    by (simp add: search_index_current_def)
next
  case True
  from touched_rows [OF run True r refl] show ?thesis
  proof (elim disjE exE conjE)
    assume "search_index_current d' r"
    then show ?thesis .
  next
    assume same: "d' = d"
    with r cur show ?thesis
      by simp
  next
    fix first r0
    assume f: "find (\<lambda>x. r_id x = r_id r) (recipes d) = Some first"
      and r0: "r0 \<in> set (recipes d)" "r_id r0 = r_id r"
        "search_text_expr r0 = search_text_expr r"
      and t: "map Some (search_texts d' (r_id r)) = [search_text_expr first]"
    from f have "first \<in> set (recipes d)" "r_id first = r_id r"
      by (auto simp: find_Some_iff)
    with cur have "map Some (search_texts d (r_id r)) = [search_text_expr first]"
      by (simp add: search_index_current_def)
    moreover from cur r0 have "map Some (search_texts d (r_id r)) = [search_text_expr r0]"
      by (simp add: search_index_current_def)
    ultimately have "search_text_expr first = search_text_expr r"
      using r0(3) by simp
    with t show ?thesis
      by (simp add: search_index_current_def)
  qed
qed

lemma statement_indexes:
  assumes run: "run s now d = Inr d'" and ne: "d' \<noteq> d"
    and touch: "touches s d (r_id r)"
    and dist: "distinct (map r_id (recipes d))"
    and r: "r \<in> set (recipes d')"
  shows "search_index_current d' r"
  using touched_rows [OF run touch r refl]
proof (elim disjE exE conjE)
  assume "search_index_current d' r"
  then show ?thesis .
next
  assume "d' = d"
  with ne show ?thesis by simp
next
  fix first r0
  assume f: "find (\<lambda>x. r_id x = r_id r) (recipes d) = Some first"
    and r0: "r0 \<in> set (recipes d)" "r_id r0 = r_id r"
      "search_text_expr r0 = search_text_expr r"
    and t: "map Some (search_texts d' (r_id r)) = [search_text_expr first]"
  from f have first: "first \<in> set (recipes d)" "r_id first = r_id r"
    by (auto simp: find_Some_iff)
  from first r0(2) have "first \<in> set (filter (\<lambda>y. r_id y = r_id r0) (recipes d))"
    by simp
  then have "first = r0"
    by (simp add: filter_distinct_key [OF dist r0(1)])
  with t r0(3) show ?thesis
    by (simp add: search_index_current_def)
qed

lemma states_keep_current:
  assumes "\<forall>r0 \<in> set (recipes d). r_id r0 = k \<longrightarrow> search_index_current d r0"
    and "\<forall>x \<in> set (states ss d). k \<in> set (map r_id (recipes x))"
  shows "\<forall>x \<in> set (states ss d). \<forall>r \<in> set (recipes x). r_id r = k \<longrightarrow>
           search_index_current x r"
  using assms
proof (induction ss arbitrary: d)
  case Nil
  then show ?case
    by simp
next
  case (Cons a ss)
  obtain s now where a: "a = (s, now)"
    by (cases a)
  define d1 where "d1 = (case run s now d of Inl e \<Rightarrow> d | Inr d' \<Rightarrow> d')"
  have st: "states (a # ss) d = d # states ss d1"
    by (simp add: a d1_def)
  from Cons.prems(2) have k: "k \<in> set (map r_id (recipes d))"
    and rest: "\<forall>x \<in> set (states ss d1). k \<in> set (map r_id (recipes x))"
    by (simp_all add: st)
  have "\<forall>r0 \<in> set (recipes d1). r_id r0 = k \<longrightarrow> search_index_current d1 r0"
  proof (cases "run s now d")
    case (Inl e)
    with Cons.prems(1) show ?thesis
      by (simp add: d1_def)
  next
    case (Inr d')
    then have d1: "d1 = d'"
      by (simp add: d1_def)
    show ?thesis
    proof (intro ballI impI)
      fix r0
      assume r0: "r0 \<in> set (recipes d1)" "r_id r0 = k"
      from Inr d1 have "run s now d = Inr d1"
        by simp
      then show "search_index_current d1 r0"
        using r0(1)
      proof (rule statement_keeps_current)
        from k r0(2) show "r_id r0 \<in> set (map r_id (recipes d))"
          by simp
        from Cons.prems(1) r0(2)
        show "\<forall>r \<in> set (recipes d). r_id r = r_id r0 \<longrightarrow> search_index_current d r"
          by simp
      qed
    qed
  qed
  from Cons.IH [OF this rest] Cons.prems(1) show ?case
    by (simp add: st)
qed

subsection \<open>A recipe without a description\<close>

text \<open>
  \<^verbatim>\<open>description\<close> and \<^verbatim>\<open>tags\<close> may be \<^verbatim>\<open>NULL\<close>, and then so is the concatenated
  text, which \<^verbatim>\<open>search_text NOT NULL\<close> refuses: an update that leaves the
  description empty is rolled back, and so is a review of such a recipe, since
  the rating trigger updates the recipe row.
\<close>

lemma update_without_description:
  "update_recipe example_db 1 (example_recipe\<lparr>r_description := None\<rparr>) 5 = Inl NotNullViolation"
  by code_simp

lemma review_without_description:
  "addReview (example_db\<lparr>recipes := [example_recipe\<lparr>r_description := None\<rparr>]\<rparr>)
      ''better-than-sex-fruit''
      \<lparr>rb_reviewer_name = Some ''Ann'', rb_reviewer_email = None, rb_rating = Some 5,
       rb_title = None, rb_comment = None\<rparr> 1 =
     (FailedToAddReview, example_db\<lparr>recipes := [example_recipe\<lparr>r_description := None\<rparr>]\<rparr>)"
  by code_simp

subsection \<open>The search index after an update\<close>

text \<open>
  Claim C4. After an update of recipe \<open>rid\<close> has gone through, the index is the
  old index without the rows of \<open>rid\<close>, followed by one new row for \<open>rid\<close>; the
  text of that row, the only one of \<open>rid\<close>, is the lowercase concatenation of the
  updated title, description, tags, ingredients and instructions, joined by
  single spaces. (The update only goes through when description and tags are not
  \<^verbatim>\<open>NULL\<close>: the concatenation of a \<^verbatim>\<open>NULL\<close> is \<^verbatim>\<open>NULL\<close>, which \<^verbatim>\<open>search_text\<close>
  refuses.)
\<close>

theorem update_rebuilds_search_index:
  assumes "update_recipe d rid vals now = Inr d'"
    and "rid \<in> set (map r_id (recipes d))"
  shows "\<exists>ds ts sid.
           r_description vals = Some ds \<and> r_tags vals = Some ts \<and>
           recipe_search_index d' =
             filter (\<lambda>x. si_recipe_id x \<noteq> rid) (recipe_search_index d) @
               [\<lparr>si_id = sid, si_recipe_id = rid,
                 si_search_text =
                   sql_lower (r_title vals @ '' '' @ ds @ '' '' @ ts @ '' '' @
                              r_ingredients vals @ '' '' @ r_instructions vals),
                 si_created_at = Some now\<rparr>] \<and>
           search_texts d' rid =
             [sql_lower (r_title vals @ '' '' @ ds @ '' '' @ ts @ '' '' @
                         r_ingredients vals @ '' '' @ r_instructions vals)]"
proof -
  from assms(2) obtain old where "find (\<lambda>r. r_id r = rid) (recipes d) = Some old"
    unfolding find_recipe_iff by blast
  from update_recipe_Inr [OF assms(1) this] obtain t sid where
    t: "search_text_expr vals = Some t"
    and d': "d' = reindexed (stamped (replaced d rid vals) rid now) rid t sid now"
    by blast
  from t obtain ds ts where "r_description vals = Some ds" "r_tags vals = Some ts"
    "t = sql_lower (r_title vals @ '' '' @ ds @ '' '' @ ts @ '' '' @
                    r_ingredients vals @ '' '' @ r_instructions vals)"
    by (auto simp: search_text_expr_Some)
  then show ?thesis
    by (simp add: d' search_index_reindexed search_texts_reindexed search_index_stamped_replaced)
qed

theorem update_rebuilds_search_index_witness:
  "\<exists>d1 d2.
     update_recipe example_db 1 example_recipe 5 = Inr d1 \<and>
     1 \<in> set (map r_id (recipes d1)) \<and>
     search_texts d1 1 =
       [''better than sex fruit a creamy blend [no-bake] [pineapple, cool whip] [combine, chill]''] \<and>
     update_recipe d1 1 (example_recipe\<lparr>r_title := ''Amazing Fruit Salad''\<rparr>) 6 = Inr d2 \<and>
     search_texts d2 1 =
       [''amazing fruit salad a creamy blend [no-bake] [pineapple, cool whip] [combine, chill]''] \<and>
     length (recipe_search_index d2) = 1"
proof -
  define d1 where "d1 = projr (update_recipe example_db 1 example_recipe 5)"
  define d2 where
    "d2 = projr (update_recipe d1 1 (example_recipe\<lparr>r_title := ''Amazing Fruit Salad''\<rparr>) 6)"
  have "\<not> isl (update_recipe example_db 1 example_recipe 5)"
    by code_simp
  then have e1: "update_recipe example_db 1 example_recipe 5 = Inr d1"
    by (simp add: d1_def)
  have "\<not> isl (update_recipe d1 1 (example_recipe\<lparr>r_title := ''Amazing Fruit Salad''\<rparr>) 6)"
    unfolding d1_def by code_simp
  then have e2: "update_recipe d1 1 (example_recipe\<lparr>r_title := ''Amazing Fruit Salad''\<rparr>) 6 = Inr d2"
    by (simp add: d2_def)
  have i0: "1 \<in> set (map r_id (recipes example_db))"
    and i1: "1 \<in> set (map r_id (recipes d1))"
    unfolding d1_def by code_simp+
  have v1: "r_description example_recipe = Some ds \<and> r_tags example_recipe = Some ts \<Longrightarrow>
        sql_lower (r_title example_recipe @ '' '' @ ds @ '' '' @ ts @ '' '' @
                   r_ingredients example_recipe @ '' '' @ r_instructions example_recipe) =
        ''better than sex fruit a creamy blend [no-bake] [pineapple, cool whip] [combine, chill]''"
    for ds ts
  proof -
    assume "r_description example_recipe = Some ds \<and> r_tags example_recipe = Some ts"
    then have "ds = ''A creamy blend''" "ts = ''[no-bake]''"
      by (simp_all add: example_recipe_def)
    then show ?thesis
      by (simp only:) code_simp
  qed
  have v2: "r_description (example_recipe\<lparr>r_title := ''Amazing Fruit Salad''\<rparr>) = Some ds \<and>
        r_tags (example_recipe\<lparr>r_title := ''Amazing Fruit Salad''\<rparr>) = Some ts \<Longrightarrow>
        sql_lower (r_title (example_recipe\<lparr>r_title := ''Amazing Fruit Salad''\<rparr>) @ '' '' @ ds @
                   '' '' @ ts @ '' '' @
                   r_ingredients (example_recipe\<lparr>r_title := ''Amazing Fruit Salad''\<rparr>) @ '' '' @
                   r_instructions (example_recipe\<lparr>r_title := ''Amazing Fruit Salad''\<rparr>)) =
        ''amazing fruit salad a creamy blend [no-bake] [pineapple, cool whip] [combine, chill]''"
    for ds ts
  proof -
    assume "r_description (example_recipe\<lparr>r_title := ''Amazing Fruit Salad''\<rparr>) = Some ds \<and>
        r_tags (example_recipe\<lparr>r_title := ''Amazing Fruit Salad''\<rparr>) = Some ts"
    then have "ds = ''A creamy blend''" "ts = ''[no-bake]''"
      by (simp_all add: example_recipe_def)
    then show ?thesis
      by (simp only:) code_simp
  qed
  from update_rebuilds_search_index [OF e1 i0] v1 have t1: "search_texts d1 1 =
       [''better than sex fruit a creamy blend [no-bake] [pineapple, cool whip] [combine, chill]'']"
    by metis
  from update_rebuilds_search_index [OF e2 i1] v2 have t2: "search_texts d2 1 =
       [''amazing fruit salad a creamy blend [no-bake] [pineapple, cool whip] [combine, chill]'']"
    by metis
  have n2: "length (recipe_search_index d2) = 1"
    unfolding d2_def d1_def by code_simp
  from e1 i1 t1 e2 t2 n2 show ?thesis
    by blast
qed

subsection \<open>Rebuilding the index twice\<close>

text \<open>
  Claim C6. The materialization of the search index is idempotent. When an update
  of recipe \<open>rid\<close> has gone through, running the same update again goes through
  as well, and any later update that goes through and leaves title, description,
  tags, ingredients and instructions as they are produces search texts for
  \<open>rid\<close> that are equal, byte for byte, to those of the first run.
\<close>

theorem search_index_idempotent:
  assumes "update_recipe d rid vals now = Inr d1"
    and "rid \<in> set (map r_id (recipes d))"
  shows "(\<exists>d2. update_recipe d1 rid vals now' = Inr d2) \<and>
         (\<forall>d2 vals'. update_recipe d1 rid vals' now' = Inr d2 \<and>
              r_title vals' = r_title vals \<and> r_description vals' = r_description vals \<and>
              r_tags vals' = r_tags vals \<and> r_ingredients vals' = r_ingredients vals \<and>
              r_instructions vals' = r_instructions vals \<longrightarrow>
              search_texts d2 rid = search_texts d1 rid)"
proof (intro conjI allI impI)
  show "\<exists>d2. update_recipe d1 rid vals now' = Inr d2"
    by (rule update_recipe_again [OF assms])
next
  fix d2 vals'
  assume a: "update_recipe d1 rid vals' now' = Inr d2 \<and>
              r_title vals' = r_title vals \<and> r_description vals' = r_description vals \<and>
              r_tags vals' = r_tags vals \<and> r_ingredients vals' = r_ingredients vals \<and>
              r_instructions vals' = r_instructions vals"
  then have same: "search_text_expr vals' = search_text_expr vals"
    by (simp add: search_text_expr_def)
  from assms(2) obtain old where old: "find (\<lambda>r. r_id r = rid) (recipes d) = Some old"
    unfolding find_recipe_iff by blast
  from update_recipe_Inr [OF assms(1) old] obtain t sid where
    t: "search_text_expr vals = Some t"
    and d1: "d1 = reindexed (stamped (replaced d rid vals) rid now) rid t sid now"
    by blast
  have "rid \<in> set (map r_id (recipes d1))"
    using assms(2) by (auto simp: update_recipe_recipes [OF assms(1)])
  then obtain old1 where old1: "find (\<lambda>r. r_id r = rid) (recipes d1) = Some old1"
    unfolding find_recipe_iff by blast
  from a have "update_recipe d1 rid vals' now' = Inr d2"
    by simp
  from update_recipe_Inr [OF this old1] obtain t' sid' where
    "search_text_expr vals' = Some t'"
    "d2 = reindexed (stamped (replaced d1 rid vals') rid now') rid t' sid' now'"
    by blast
  with same t d1 show "search_texts d2 rid = search_texts d1 rid"
    by (simp add: search_texts_reindexed)
qed

theorem search_index_idempotent_witness:
  "\<exists>d1 d2.
     update_recipe example_db 1 example_recipe 5 = Inr d1 \<and>
     1 \<in> set (map r_id (recipes example_db)) \<and>
     update_recipe d1 1 example_recipe 6 = Inr d2 \<and>
     search_texts d2 1 = search_texts d1 1 \<and>
     length (search_texts d1 1) = 1"
proof -
  define d1 where "d1 = projr (update_recipe example_db 1 example_recipe 5)"
  have "\<not> isl (update_recipe example_db 1 example_recipe 5)"
    by code_simp
  then have e1: "update_recipe example_db 1 example_recipe 5 = Inr d1"
    by (simp add: d1_def)
  have i0: "1 \<in> set (map r_id (recipes example_db))"
    by code_simp
  have n1: "length (search_texts d1 1) = 1"
    unfolding d1_def by code_simp
  note idem = search_index_idempotent [OF e1 i0, of 6]
  then obtain d2 where e2: "update_recipe d1 1 example_recipe 6 = Inr d2"
    by blast
  with idem have "search_texts d2 1 = search_texts d1 1"
    by blast
  with e1 i0 e2 n1 show ?thesis
    by blast
qed

subsection \<open>The timestamp of an updated row\<close>

text \<open>
  Claim C8. After an update of a recipe row or of a category row has gone
  through, the row's \<^verbatim>\<open>updated_at\<close> is the time of the statement, whatever value
  the client's \<^verbatim>\<open>SET\<close> gave that column. Hence, of two successive updates of the
  same row, the second of which reads the clock no earlier than the first, the
  second leaves an \<^verbatim>\<open>updated_at\<close> that is not smaller.
\<close>

theorem updated_at_is_now:
  "(update_recipe d rid vals now = Inr d' \<longrightarrow>
      (\<forall>r \<in> set (recipes d'). r_id r = rid \<longrightarrow> r_updated_at r = Some now)) \<and>
   (update_category d cid cvals now = Inr d' \<longrightarrow>
      (\<forall>c \<in> set (categories d'). c_id c = cid \<longrightarrow> c_updated_at c = Some now)) \<and>
   (update_recipe d rid vals now = Inr d1 \<and> update_recipe d1 rid vals' now' = Inr d2 \<and>
    now \<le> now' \<longrightarrow>
      (\<forall>r1 \<in> set (recipes d1). \<forall>r2 \<in> set (recipes d2).
          r_id r1 = rid \<and> r_id r2 = rid \<longrightarrow>
          (\<exists>t1 t2. r_updated_at r1 = Some t1 \<and> r_updated_at r2 = Some t2 \<and> t1 \<le> t2))) \<and>
   (update_category d cid cvals now = Inr d1 \<and> update_category d1 cid cvals' now' = Inr d2 \<and>
    now \<le> now' \<longrightarrow>
      (\<forall>c1 \<in> set (categories d1). \<forall>c2 \<in> set (categories d2).
          c_id c1 = cid \<and> c_id c2 = cid \<longrightarrow>
          (\<exists>t1 t2. c_updated_at c1 = Some t1 \<and> c_updated_at c2 = Some t2 \<and> t1 \<le> t2)))"
proof -
  have r: "\<forall>r \<in> set (recipes d'). r_id r = rid \<longrightarrow> r_updated_at r = Some now"
    if "update_recipe d rid vals now = Inr d'" for d d' vals now
  proof -
    define new where "new = vals\<lparr>r_id := rid, r_updated_at := Some now\<rparr>"
    have "recipes d' = map (\<lambda>r. if r_id r = rid then new else r) (recipes d)"
      unfolding new_def by (rule update_recipe_recipes [OF that])
    then have "\<forall>r \<in> set (recipes d'). r_id r = rid \<longrightarrow> r = new"
      by auto
    moreover have "r_updated_at new = Some now"
      by (simp add: new_def)
    ultimately show ?thesis
      by blast
  qed
  have c: "\<forall>c \<in> set (categories d'). c_id c = cid \<longrightarrow> c_updated_at c = Some now"
    if "update_category d cid cvals now = Inr d'" for d d' cvals now
  proof -
    define new where "new = cvals\<lparr>c_id := cid, c_updated_at := Some now\<rparr>"
    have "categories d' = map (\<lambda>c. if c_id c = cid then new else c) (categories d)"
      unfolding new_def by (rule update_category_categories [OF that])
    then have "\<forall>c \<in> set (categories d'). c_id c = cid \<longrightarrow> c = new"
      by auto
    moreover have "c_updated_at new = Some now"
      by (simp add: new_def)
    ultimately show ?thesis
      by blast
  qed
  show ?thesis
    using r c by blast
qed

theorem updated_at_is_now_witness:
  "\<exists>d1 d2 e1 e2.
     update_recipe example_db 1 (example_recipe\<lparr>r_updated_at := Some 99\<rparr>) 5 = Inr d1 \<and>
     update_recipe d1 1 (example_recipe\<lparr>r_updated_at := None\<rparr>) 6 = Inr d2 \<and>
     (\<exists>r \<in> set (recipes d1). r_id r = 1 \<and> r_updated_at r = Some 5) \<and>
     (\<exists>r \<in> set (recipes d2). r_id r = 1 \<and> r_updated_at r = Some 6) \<and>
     update_category example_db 5 (example_category\<lparr>c_updated_at := Some 99\<rparr>) 5 = Inr e1 \<and>
     update_category e1 5 (example_category\<lparr>c_name := ''Sweets''\<rparr>) 6 = Inr e2 \<and>
     (\<exists>c \<in> set (categories e1). c_id c = 5 \<and> c_updated_at c = Some 5) \<and>
     (\<exists>c \<in> set (categories e2). c_id c = 5 \<and> c_updated_at c = Some 6) \<and>
     (5::nat) \<le> 6 \<and>
     (\<exists>r1 \<in> set (recipes d1). \<exists>r2 \<in> set (recipes d2). \<exists>t1 t2.
        r_updated_at r1 = Some t1 \<and> r_updated_at r2 = Some t2 \<and> t1 \<le> t2) \<and>
     (\<exists>c1 \<in> set (categories e1). \<exists>c2 \<in> set (categories e2). \<exists>t1 t2.
        c_updated_at c1 = Some t1 \<and> c_updated_at c2 = Some t2 \<and> t1 \<le> t2)"
proof -
  define d1 where
    "d1 = projr (update_recipe example_db 1 (example_recipe\<lparr>r_updated_at := Some 99\<rparr>) 5)"
  define d2 where
    "d2 = projr (update_recipe d1 1 (example_recipe\<lparr>r_updated_at := None\<rparr>) 6)"
  define e1 where
    "e1 = projr (update_category example_db 5 (example_category\<lparr>c_updated_at := Some 99\<rparr>) 5)"
  define e2 where
    "e2 = projr (update_category e1 5 (example_category\<lparr>c_name := ''Sweets''\<rparr>) 6)"
  have "\<not> isl (update_recipe example_db 1 (example_recipe\<lparr>r_updated_at := Some 99\<rparr>) 5)"
    by code_simp
  then have u1: "update_recipe example_db 1 (example_recipe\<lparr>r_updated_at := Some 99\<rparr>) 5 = Inr d1"
    by (simp add: d1_def)
  have "\<not> isl (update_recipe d1 1 (example_recipe\<lparr>r_updated_at := None\<rparr>) 6)"
    unfolding d1_def by code_simp
  then have u2: "update_recipe d1 1 (example_recipe\<lparr>r_updated_at := None\<rparr>) 6 = Inr d2"
    by (simp add: d2_def)
  have "\<not> isl (update_category example_db 5 (example_category\<lparr>c_updated_at := Some 99\<rparr>) 5)"
    by code_simp
  then have v1: "update_category example_db 5 (example_category\<lparr>c_updated_at := Some 99\<rparr>) 5 = Inr e1"
    by (simp add: e1_def)
  have "\<not> isl (update_category e1 5 (example_category\<lparr>c_name := ''Sweets''\<rparr>) 6)"
    unfolding e1_def by code_simp
  then have v2: "update_category e1 5 (example_category\<lparr>c_name := ''Sweets''\<rparr>) 6 = Inr e2"
    by (simp add: e2_def)
  have x: "\<exists>r \<in> set (recipes d1). r_id r = 1" "\<exists>r \<in> set (recipes d2). r_id r = 1"
    "\<exists>c \<in> set (categories e1). c_id c = 5" "\<exists>c \<in> set (categories e2). c_id c = 5"
    unfolding d2_def d1_def e2_def e1_def by code_simp+
  note rec = updated_at_is_now [THEN conjunct1, rule_format]
  note cat = updated_at_is_now [THEN conjunct2, THEN conjunct1, rule_format]
  from x(1) obtain r1 where r1: "r1 \<in> set (recipes d1)" "r_id r1 = 1" by blast
  from x(2) obtain r2 where r2: "r2 \<in> set (recipes d2)" "r_id r2 = 1" by blast
  from x(3) obtain c1 where c1: "c1 \<in> set (categories e1)" "c_id c1 = 5" by blast
  from x(4) obtain c2 where c2: "c2 \<in> set (categories e2)" "c_id c2 = 5" by blast
  have "r_updated_at r1 = Some 5" by (rule rec [OF u1 r1])
  with r1 have a: "\<exists>r \<in> set (recipes d1). r_id r = 1 \<and> r_updated_at r = Some 5" by blast
  have "r_updated_at r2 = Some 6" by (rule rec [OF u2 r2])
  with r2 have b: "\<exists>r \<in> set (recipes d2). r_id r = 1 \<and> r_updated_at r = Some 6" by blast
  have "c_updated_at c1 = Some 5" by (rule cat [OF v1 c1])
  with c1 have c: "\<exists>c \<in> set (categories e1). c_id c = 5 \<and> c_updated_at c = Some 5" by blast
  have "c_updated_at c2 = Some 6" by (rule cat [OF v2 c2])
  with c2 have d: "\<exists>c \<in> set (categories e2). c_id c = 5 \<and> c_updated_at c = Some 6" by blast
  have le: "(5::nat) \<le> 6" by simp
  note rec_mono =
    updated_at_is_now [THEN conjunct2, THEN conjunct2, THEN conjunct1, rule_format]
  note cat_mono =
    updated_at_is_now [THEN conjunct2, THEN conjunct2, THEN conjunct2, rule_format]
  have "\<exists>t1 t2. r_updated_at r1 = Some t1 \<and> r_updated_at r2 = Some t2 \<and> t1 \<le> t2"
    by (rule rec_mono [OF conjI [OF u1 conjI [OF u2 le]] r1(1) r2(1) conjI [OF r1(2) r2(2)]])
  with r1 r2 have e: "\<exists>r1 \<in> set (recipes d1). \<exists>r2 \<in> set (recipes d2). \<exists>t1 t2.
        r_updated_at r1 = Some t1 \<and> r_updated_at r2 = Some t2 \<and> t1 \<le> t2"
    by blast
  have "\<exists>t1 t2. c_updated_at c1 = Some t1 \<and> c_updated_at c2 = Some t2 \<and> t1 \<le> t2"
    by (rule cat_mono [OF conjI [OF v1 conjI [OF v2 le]] c1(1) c2(1) conjI [OF c1(2) c2(2)]])
  with c1 c2 have f: "\<exists>c1 \<in> set (categories e1). \<exists>c2 \<in> set (categories e2). \<exists>t1 t2.
        c_updated_at c1 = Some t1 \<and> c_updated_at c2 = Some t2 \<and> t1 \<le> t2"
    by blast
  from u1 u2 a b v1 v2 c d le e f show ?thesis
    by (intro exI conjI)
qed

subsection \<open>The rating of a recipe after a review is inserted or deleted\<close>

text \<open>
  Claim C3. When a review of recipe \<open>rid\<close> has been inserted, the ratings of
  \<open>rid\<close> are the earlier ones and the new one, whatever the status of any review,
  and the recipe stores their mean (the sum over the count) and their count. When
  a review has been deleted, the recipe it was for stores the mean and the count
  of the remaining ratings, and rating 0 (not \<^verbatim>\<open>NULL\<close>) and count 0 when none
  remains. On the store with no review, inserting ratings 5 and then 4 stores
  rating 5 with count 1 and then rating 9/2 with count 2; deleting the rating-5
  review stores rating 4 with count 1, and deleting the last review stores
  rating 0 with count 0 (the first two arguments of \<open>reviewed_db\<close>).
\<close>

theorem review_rating_recompute:
  "(insert_review d rid name email rating title comment status now = Inr d' \<longrightarrow>
      recipe_ratings d' rid = recipe_ratings d rid @ [rating] \<and>
      (\<forall>r \<in> set (recipes d'). r_id r = rid \<longrightarrow>
         r_rating r =
           Some (sum_list (recipe_ratings d' rid) / of_nat (length (recipe_ratings d' rid))) \<and>
         r_review_count r = Some (int (length (recipe_ratings d' rid))))) \<and>
   (delete_review d vid now = Inr d' \<and> find (\<lambda>v. rv_id v = vid) (reviews d) = Some old \<longrightarrow>
      (\<forall>r \<in> set (recipes d'). r_id r = rv_recipe_id old \<longrightarrow>
         r_rating r = Some (mean (recipe_ratings d' (rv_recipe_id old))) \<and>
         r_review_count r = Some (int (length (recipe_ratings d' (rv_recipe_id old)))) \<and>
         (recipe_ratings d' (rv_recipe_id old) = [] \<longrightarrow>
            r_rating r = Some 0 \<and> r_review_count r = Some 0))) \<and>
   (reviews example_db = [] \<and>
    insert_review example_db 1 ''Sarah M.'' None 5 None None None 1 =
      Inr (reviewed_db 5 1 [example_review 1 ''Sarah M.'' 5 ''published'' 1] 1 1) \<and>
    insert_review (reviewed_db 5 1 [example_review 1 ''Sarah M.'' 5 ''published'' 1] 1 1)
        1 ''Mike R.'' None 4 None None None 2 =
      Inr (reviewed_db (9 / 2) 2 [example_review 1 ''Sarah M.'' 5 ''published'' 1,
                                  example_review 2 ''Mike R.'' 4 ''published'' 2] 2 2) \<and>
    delete_review (reviewed_db (9 / 2) 2 [example_review 1 ''Sarah M.'' 5 ''published'' 1,
                                         example_review 2 ''Mike R.'' 4 ''published'' 2] 2 2) 1 3 =
      Inr (reviewed_db 4 1 [example_review 2 ''Mike R.'' 4 ''published'' 2] 2 3) \<and>
    delete_review (reviewed_db 4 1 [example_review 2 ''Mike R.'' 4 ''published'' 2] 2 3) 2 4 =
      Inr (reviewed_db 0 0 [] 2 4))"
proof (intro conjI impI ballI)
  assume a: "insert_review d rid name email rating title comment status now = Inr d'"
  show rr: "recipe_ratings d' rid = recipe_ratings d rid @ [rating]"
    by (rule insert_review_Inr(3) [OF a])
  fix r
  assume r: "r \<in> set (recipes d')" "r_id r = rid"
  from rr have "mean (recipe_ratings d' rid) =
      sum_list (recipe_ratings d' rid) / of_nat (length (recipe_ratings d' rid))"
    by (simp add: mean_def)
  with insert_review_rating(1) [OF a r]
  show "r_rating r =
      Some (sum_list (recipe_ratings d' rid) / of_nat (length (recipe_ratings d' rid)))"
    by simp
  show "r_review_count r = Some (int (length (recipe_ratings d' rid)))"
    by (rule insert_review_rating(2) [OF a r])
next
  fix r
  assume a: "delete_review d vid now = Inr d' \<and>
             find (\<lambda>v. rv_id v = vid) (reviews d) = Some old"
    and r: "r \<in> set (recipes d')" "r_id r = rv_recipe_id old"
  from a have a1: "delete_review d vid now = Inr d'"
    and a2: "find (\<lambda>v. rv_id v = vid) (reviews d) = Some old"
    by simp_all
  show m: "r_rating r = Some (mean (recipe_ratings d' (rv_recipe_id old)))"
    by (rule delete_review_rating(1) [OF a1 a2 r])
  show c: "r_review_count r = Some (int (length (recipe_ratings d' (rv_recipe_id old))))"
    by (rule delete_review_rating(2) [OF a1 a2 r])
  assume "recipe_ratings d' (rv_recipe_id old) = []"
  with m c show "r_rating r = Some 0" "r_review_count r = Some 0"
    by (simp_all add: mean_def)
next
  show "reviews example_db = []"
    by (simp add: example_db_def)
qed (rule example_first_review example_second_review example_delete_first example_delete_second)+

theorem review_rating_recompute_witness:
  "insert_review example_db 1 ''Sarah M.'' None 5 None None None 1 =
     Inr (reviewed_db 5 1 [example_review 1 ''Sarah M.'' 5 ''published'' 1] 1 1) \<and>
   recipe_ratings (reviewed_db 5 1 [example_review 1 ''Sarah M.'' 5 ''published'' 1] 1 1) 1 =
     recipe_ratings example_db 1 @ [5] \<and>
   (\<exists>r \<in> set (recipes (reviewed_db 5 1 [example_review 1 ''Sarah M.'' 5 ''published'' 1] 1 1)).
      r_id r = 1 \<and> r_rating r = Some 5 \<and> r_review_count r = Some 1) \<and>
   delete_review (reviewed_db 4 1 [example_review 2 ''Mike R.'' 4 ''published'' 2] 2 3) 2 4 =
     Inr (reviewed_db 0 0 [] 2 4) \<and>
   find (\<lambda>v. rv_id v = 2) (reviews (reviewed_db 4 1 [example_review 2 ''Mike R.'' 4 ''published'' 2] 2 3)) =
     Some (example_review 2 ''Mike R.'' 4 ''published'' 2) \<and>
   recipe_ratings (reviewed_db 0 0 [] 2 4) 1 = [] \<and>
   (\<exists>r \<in> set (recipes (reviewed_db 0 0 [] 2 4)).
      r_id r = 1 \<and> r_rating r = Some 0 \<and> r_review_count r = Some 0)"
proof -
  define s1 where "s1 = reviewed_db 5 1 [example_review 1 ''Sarah M.'' 5 ''published'' 1] 1 1"
  define s3 where "s3 = reviewed_db 4 1 [example_review 2 ''Mike R.'' 4 ''published'' 2] 2 3"
  define s4 where "s4 = reviewed_db 0 0 [] 2 4"
  define row1 where "row1 = example_recipe\<lparr>r_rating := Some 5, r_review_count := Some 1,
    r_updated_at := Some 1\<rparr>"
  define row4 where "row4 = example_recipe\<lparr>r_rating := Some 0, r_review_count := Some 0,
    r_updated_at := Some 4\<rparr>"
  note ins = review_rating_recompute [THEN conjunct1, rule_format]
  note del = review_rating_recompute [THEN conjunct2, THEN conjunct1, rule_format]
  note run = review_rating_recompute [THEN conjunct2, THEN conjunct2]
  from run have e1: "insert_review example_db 1 ''Sarah M.'' None 5 None None None 1 = Inr s1"
    and e4: "delete_review s3 2 4 = Inr s4"
    by (simp_all add: s1_def s3_def s4_def)
  have f: "find (\<lambda>v. rv_id v = 2) (reviews s3) = Some (example_review 2 ''Mike R.'' 4 ''published'' 2)"
    unfolding s3_def by code_simp
  have m1: "row1 \<in> set (recipes s1)" "r_id row1 = 1"
    and m4: "row4 \<in> set (recipes s4)" "r_id row4 = rv_recipe_id (example_review 2 ''Mike R.'' 4 ''published'' 2)"
    and id4: "r_id row4 = 1"
    by (simp_all add: s1_def s4_def row1_def row4_def reviewed_db_def example_recipe_def
          example_review_def)
  have rr1: "recipe_ratings s1 1 = [5]" and rr4: "recipe_ratings s4 1 = []"
    and rid: "rv_recipe_id (example_review 2 ''Mike R.'' 4 ''published'' 2) = 1"
    by (simp_all add: s1_def s4_def reviewed_db_def recipe_ratings_def example_review_def)
  from ins [OF e1] have a: "recipe_ratings s1 1 = recipe_ratings example_db 1 @ [5]"
    by simp
  from ins [OF e1] m1 have
    "r_rating row1 = Some (sum_list (recipe_ratings s1 1) / of_nat (length (recipe_ratings s1 1)))"
    "r_review_count row1 = Some (int (length (recipe_ratings s1 1)))"
    by blast+
  with m1 have b: "\<exists>r \<in> set (recipes s1). r_id r = 1 \<and> r_rating r = Some 5 \<and> r_review_count r = Some 1"
    by (auto simp: rr1)
  from del [OF conjI [OF e4 f] m4] rr4 rid have "r_rating row4 = Some 0" "r_review_count row4 = Some 0"
    by (simp_all add: mean_def)
  with m4(1) id4 have c: "\<exists>r \<in> set (recipes s4). r_id r = 1 \<and> r_rating r = Some 0 \<and> r_review_count r = Some 0"
    by blast
  from e1 a b e4 f rr4 c show ?thesis
    unfolding s1_def s3_def s4_def by (intro conjI)
qed

subsection \<open>The rating and the status of the reviews\<close>




subsection \<open>A review added through the worker\<close>

text \<open>
  Claim C10. When \<^verbatim>\<open>addReview\<close> answers 201, the store has one more review row:
  it has the returned id, belongs to the recipe with the given slug, and its
  status is \<^verbatim>\<open>'published'\<close>, the column default. In the store the handler leaves
  the row is among the rows the published-reviews query selects (one more than
  before), its rating is among the recipe's ratings, and the recipe stores the
  mean and the count of its ratings with the new one: there is no store in
  between in which the review is pending.
\<close>

theorem addReview_published:
  assumes "addReview d slug body now = (Created vid, d')"
  shows "\<exists>rr v.
           find (\<lambda>r. r_slug r = slug) (recipes d) = Some rr \<and>
           reviews d' = reviews d @ [v] \<and>
           rv_id v = vid \<and> rv_recipe_id v = r_id rr \<and> Some (rv_rating v) = rb_rating body \<and>
           rv_status v = Some ''published'' \<and>
           published_reviews d' (r_id rr) = published_reviews d (r_id rr) @ [v] \<and>
           total_reviews d' (r_id rr) = total_reviews d (r_id rr) + 1 \<and>
           recipe_ratings d' (r_id rr) = recipe_ratings d (r_id rr) @ [rv_rating v] \<and>
           (\<forall>r \<in> set (recipes d'). r_id r = r_id rr \<longrightarrow> rating_of_all d' r)"
proof -
  from assms obtain rr name rating where
    rr: "find (\<lambda>r. r_slug r = slug) (recipes d) = Some rr"
    and rating: "rb_rating body = Some rating"
    and ins: "insert_review d (r_id rr) name (or_null (rb_reviewer_email body)) rating
       (or_null (rb_title body)) (or_null (rb_comment body)) None now = Inr d'"
    and vid: "vid = seq_reviews d'"
    by (rule addReview_Created)
  define v where "v = new_review d (r_id rr) name (or_null (rb_reviewer_email body)) rating
       (or_null (rb_title body)) (or_null (rb_comment body)) None now"
  note facts = insert_review_Inr [OF ins, folded v_def]
  have v: "rv_recipe_id v = r_id rr" "rv_rating v = rating" "rv_status v = Some ''published''"
    by (simp_all add: v_def new_review_def)
  have pub: "published_reviews d' (r_id rr) = published_reviews d (r_id rr) @ [v]"
    by (simp add: published_reviews_def facts(1) v)
  have "\<forall>r \<in> set (recipes d'). r_id r = r_id rr \<longrightarrow> rating_of_all d' r"
    using insert_review_rating(1,2) [OF ins] by (simp add: rating_of_all_def)
  with rr facts(1,2,3) v pub vid rating show ?thesis
    by (auto simp: total_reviews_def)
qed

theorem addReview_published_witness:
  "addReview example_db ''better-than-sex-fruit''
      \<lparr>rb_reviewer_name = Some ''Sarah M.'', rb_reviewer_email = Some [], rb_rating = Some 5,
       rb_title = None, rb_comment = None\<rparr> 1 =
     (Created 1, reviewed_db 5 1 [example_review 1 ''Sarah M.'' 5 ''published'' 1] 1 1) \<and>
   (\<exists>v \<in> set (reviews (reviewed_db 5 1 [example_review 1 ''Sarah M.'' 5 ''published'' 1] 1 1)).
      rv_id v = 1 \<and> rv_status v = Some ''published'' \<and>
      v \<in> set (published_reviews
                 (reviewed_db 5 1 [example_review 1 ''Sarah M.'' 5 ''published'' 1] 1 1) 1)) \<and>
   total_reviews (reviewed_db 5 1 [example_review 1 ''Sarah M.'' 5 ''published'' 1] 1 1) 1 =
     total_reviews example_db 1 + 1 \<and>
   (\<exists>r \<in> set (recipes (reviewed_db 5 1 [example_review 1 ''Sarah M.'' 5 ''published'' 1] 1 1)).
      r_id r = 1 \<and> r_rating r = Some 5 \<and> r_review_count r = Some 1 \<and>
      rating_of_all (reviewed_db 5 1 [example_review 1 ''Sarah M.'' 5 ''published'' 1] 1 1) r)"
proof -
  define s1 where "s1 = reviewed_db 5 1 [example_review 1 ''Sarah M.'' 5 ''published'' 1] 1 1"
  define row1 where "row1 = example_recipe\<lparr>r_rating := Some 5, r_review_count := Some 1,
    r_updated_at := Some 1\<rparr>"
  have e: "addReview example_db ''better-than-sex-fruit''
      \<lparr>rb_reviewer_name = Some ''Sarah M.'', rb_reviewer_email = Some [], rb_rating = Some 5,
       rb_title = None, rb_comment = None\<rparr> 1 = (Created 1, s1)"
    unfolding s1_def by code_simp
  have f: "find (\<lambda>r. r_slug r = ''better-than-sex-fruit'') (recipes example_db) = Some example_recipe"
    by code_simp
  have id: "r_id example_recipe = 1"
    by (simp add: example_recipe_def)
  have m: "row1 \<in> set (recipes s1)" "r_id row1 = r_id example_recipe" "r_rating row1 = Some 5"
    "r_review_count row1 = Some 1"
    by (simp_all add: s1_def row1_def reviewed_db_def example_recipe_def)
  from addReview_published [OF e] f obtain v where
    v: "reviews s1 = reviews example_db @ [v]" "rv_id v = 1" "rv_status v = Some ''published''"
      "published_reviews s1 (r_id example_recipe) =
         published_reviews example_db (r_id example_recipe) @ [v]"
      "total_reviews s1 (r_id example_recipe) = total_reviews example_db (r_id example_recipe) + 1"
    and all: "\<forall>r \<in> set (recipes s1). r_id r = r_id example_recipe \<longrightarrow> rating_of_all s1 r"
    by auto
  from v have a: "\<exists>v \<in> set (reviews s1). rv_id v = 1 \<and> rv_status v = Some ''published'' \<and>
      v \<in> set (published_reviews s1 1)"
    by (simp add: id)
  from v(5) have b: "total_reviews s1 1 = total_reviews example_db 1 + 1"
    by (simp add: id)
  from all m have "rating_of_all s1 row1"
    by blast
  with m have c: "\<exists>r \<in> set (recipes s1). r_id r = 1 \<and> r_rating r = Some 5 \<and>
      r_review_count r = Some 1 \<and> rating_of_all s1 r"
    unfolding id by blast
  from e a b c show ?thesis
    unfolding s1_def by (intro conjI)
qed

subsection \<open>A rating that is not an integer\<close>

text \<open>
  Claim C9. A write that \<^verbatim>\<open>addReview\<close> rejects leaves the store as it was
  (\<open>addReview_rejected\<close>), a rating below 1 or above 5 is rejected
  (\<open>addReview_out_of_range\<close>) and so is an unknown slug
  (\<open>addReview_unknown_recipe\<close>). But a rating inside the range that is not an
  integer is not rejected: neither the handler's validation nor the column's
  \<^verbatim>\<open>CHECK\<close> asks for an integer, and the column's \<^verbatim>\<open>INTEGER\<close> affinity keeps 4.5 as it
  is. The request below, with rating 9/2, is answered 201, the review is stored
  and the recipe's rating becomes 9/2 with count 1.
\<close>

theorem addReview_accepts_fractional_rating:
  "addReview example_db ''better-than-sex-fruit''
      \<lparr>rb_reviewer_name = Some ''Ann'', rb_reviewer_email = None, rb_rating = Some (9 / 2),
       rb_title = None, rb_comment = None\<rparr> 1 =
     (Created 1, reviewed_db (9 / 2) 1 [example_review 1 ''Ann'' (9 / 2) ''published'' 1] 1 1)"
  by code_simp

subsection \<open>Deleting a recipe, deleting a category\<close>

text \<open>
  Claim C7. Deleting a recipe that exists always goes through, and afterwards the
  store has no recipe row, no association row, no review and no index row with
  that recipe id. When the delete of a category that exists goes through, the
  store has no category row and no association row with that category id, and
  the table of recipes is what it was.
\<close>

theorem delete_cascades:
  "(rid \<in> set (map r_id (recipes d)) \<longrightarrow>
      (\<exists>d'. delete_recipe d rid now = Inr d' \<and>
         filter (\<lambda>r. r_id r = rid) (recipes d') = [] \<and>
         filter (\<lambda>a. rc_recipe_id a = rid) (recipe_categories d') = [] \<and>
         filter (\<lambda>v. rv_recipe_id v = rid) (reviews d') = [] \<and>
         filter (\<lambda>x. si_recipe_id x = rid) (recipe_search_index d') = [])) \<and>
   (delete_category d cid now = Inr d' \<and> cid \<in> set (map c_id (categories d)) \<longrightarrow>
      filter (\<lambda>c. c_id c = cid) (categories d') = [] \<and>
      filter (\<lambda>a. rc_category_id a = cid) (recipe_categories d') = [] \<and>
      recipes d' = recipes d)"
proof (intro conjI impI)
  assume "rid \<in> set (map r_id (recipes d))"
  then obtain old where old: "find (\<lambda>r. r_id r = rid) (recipes d) = Some old"
    unfolding find_recipe_iff by blast
  define d1 where "d1 = d\<lparr>recipes := filter (\<lambda>r. r_id r \<noteq> rid) (recipes d)\<rparr>"
  define d2 where "d2 = fold (delete_recipe_categories_row now)
                     (filter (\<lambda>a. rc_recipe_id a = rid) (recipe_categories d1)) d1"
  define d3 where "d3 = d2\<lparr>reviews := filter (\<lambda>v. rv_id v \<notin> rv_id ` set
                     (filter (\<lambda>v. rv_recipe_id v = rid) (reviews d2))) (reviews d2)\<rparr>"
  define d4 where "d4 = d3\<lparr>user_favorites :=
                               filter (\<lambda>u. uf_recipe_id u \<noteq> rid) (user_favorites d3),
                             recipe_search_index :=
                               filter (\<lambda>x. si_recipe_id x \<noteq> rid) (recipe_search_index d3)\<rparr>"
  have r2: "recipes d2 = filter (\<lambda>r. r_id r \<noteq> rid) (recipes d)"
    by (simp add: d2_def fold_delete_recipe_categories_row(3)) (simp add: d1_def)
  then have "rid \<notin> set (map r_id (recipes d2))"
    by auto
  then have "fold_res (delete_reviews_row now)
               (filter (\<lambda>v. rv_recipe_id v = rid) (reviews d2)) d2 = Inr d3"
    unfolding d3_def by (rule fold_res_delete_reviews_row) simp
  with old have run: "delete_recipe d rid now = Inr d4"
    by (simp add: delete_recipe_def Let_def bind_res_def d1_def [symmetric] d2_def [symmetric]
                  d4_def)
  have "filter (\<lambda>r. r_id r = rid) (recipes d4) = []"
    by (simp add: d4_def d3_def r2 filter_empty_conv)
  moreover have "filter (\<lambda>a. rc_recipe_id a = rid) (recipe_categories d4) = []"
    by (auto simp: d4_def d3_def d2_def fold_delete_recipe_categories_row(1) filter_empty_conv)
  moreover have "filter (\<lambda>v. rv_recipe_id v = rid) (reviews d4) = []"
    by (auto simp: d4_def d3_def filter_empty_conv)
  moreover have "filter (\<lambda>x. si_recipe_id x = rid) (recipe_search_index d4) = []"
    by (simp add: d4_def filter_empty_conv)
  ultimately show "\<exists>d'. delete_recipe d rid now = Inr d' \<and>
         filter (\<lambda>r. r_id r = rid) (recipes d') = [] \<and>
         filter (\<lambda>a. rc_recipe_id a = rid) (recipe_categories d') = [] \<and>
         filter (\<lambda>v. rv_recipe_id v = rid) (reviews d') = [] \<and>
         filter (\<lambda>x. si_recipe_id x = rid) (recipe_search_index d') = []"
    using run by blast
next
  assume a: "delete_category d cid now = Inr d' \<and> cid \<in> set (map c_id (categories d))"
  then obtain old where "find (\<lambda>c. c_id c = cid) (categories d) = Some old"
    by (cases "find (\<lambda>c. c_id c = cid) (categories d)") (auto simp: find_None_iff)
  define d1 where "d1 = d\<lparr>categories := filter (\<lambda>c. c_id c \<noteq> cid) (categories d)\<rparr>"
  from a \<open>find (\<lambda>c. c_id c = cid) (categories d) = Some old\<close>
  have d': "d' = fold (delete_recipe_categories_row now)
                      (filter (\<lambda>a. rc_category_id a = cid) (recipe_categories d1)) d1"
    by (simp add: delete_category_def Let_def d1_def split: if_splits)
  have "map c_id (categories d') = map c_id (filter (\<lambda>c. c_id c \<noteq> cid) (categories d))"
    by (simp add: d' fold_delete_recipe_categories_row(2)) (simp add: d1_def)
  then have "cid \<notin> set (map c_id (categories d'))"
    by auto
  then show "filter (\<lambda>c. c_id c = cid) (categories d') = []"
    by (auto simp: filter_empty_conv)
  show "filter (\<lambda>a. rc_category_id a = cid) (recipe_categories d') = []"
    by (auto simp: d' fold_delete_recipe_categories_row(1) filter_empty_conv)
  show "recipes d' = recipes d"
    by (simp add: d' fold_delete_recipe_categories_row(3)) (simp add: d1_def)
qed

theorem delete_cascades_witness:
  "\<exists>d1 d2.
     1 \<in> set (map r_id (recipes linked_db)) \<and>
     length (filter (\<lambda>a. rc_recipe_id a = 1) (recipe_categories linked_db)) = 1 \<and>
     length (filter (\<lambda>v. rv_recipe_id v = 1) (reviews linked_db)) = 1 \<and>
     length (filter (\<lambda>x. si_recipe_id x = 1) (recipe_search_index linked_db)) = 1 \<and>
     delete_recipe linked_db 1 9 = Inr d1 \<and>
     filter (\<lambda>r. r_id r = 1) (recipes d1) = [] \<and>
     filter (\<lambda>a. rc_recipe_id a = 1) (recipe_categories d1) = [] \<and>
     filter (\<lambda>v. rv_recipe_id v = 1) (reviews d1) = [] \<and>
     filter (\<lambda>x. si_recipe_id x = 1) (recipe_search_index d1) = [] \<and>
     5 \<in> set (map c_id (categories linked_db)) \<and>
     delete_category linked_db 5 9 = Inr d2 \<and>
     filter (\<lambda>c. c_id c = 5) (categories d2) = [] \<and>
     filter (\<lambda>a. rc_category_id a = 5) (recipe_categories d2) = [] \<and>
     recipes d2 = recipes linked_db \<and>
     length (recipes d2) = 1"
proof -
  define d2 where "d2 = projr (delete_category linked_db 5 9)"
  have i: "1 \<in> set (map r_id (recipes linked_db))"
    "length (filter (\<lambda>a. rc_recipe_id a = 1) (recipe_categories linked_db)) = 1"
    "length (filter (\<lambda>v. rv_recipe_id v = 1) (reviews linked_db)) = 1"
    "length (filter (\<lambda>x. si_recipe_id x = 1) (recipe_search_index linked_db)) = 1"
    "5 \<in> set (map c_id (categories linked_db))"
    "length (recipes linked_db) = 1"
    by code_simp+
  have "\<not> isl (delete_category linked_db 5 9)"
    by code_simp
  then have e2: "delete_category linked_db 5 9 = Inr d2"
    by (simp add: d2_def)
  from delete_cascades [THEN conjunct1, rule_format, OF i(1)] obtain d1 where
    d1: "delete_recipe linked_db 1 9 = Inr d1"
      "filter (\<lambda>r. r_id r = 1) (recipes d1) = []"
      "filter (\<lambda>a. rc_recipe_id a = 1) (recipe_categories d1) = []"
      "filter (\<lambda>v. rv_recipe_id v = 1) (reviews d1) = []"
      "filter (\<lambda>x. si_recipe_id x = 1) (recipe_search_index d1) = []"
    by blast
  from delete_cascades [THEN conjunct2, rule_format, OF conjI [OF e2 i(5)]]
  have c: "filter (\<lambda>c. c_id c = 5) (categories d2) = []"
    "filter (\<lambda>a. rc_category_id a = 5) (recipe_categories d2) = []"
    "recipes d2 = recipes linked_db"
    by simp_all
  with i(6) have "length (recipes d2) = 1"
    by simp
  with i d1 e2 c show ?thesis
    by (intro exI conjI)
qed

subsection \<open>One current index row for each recipe\<close>

text \<open>
  Claim C5, as amended. The schema has a trigger \<^verbatim>\<open>AFTER UPDATE ON recipes\<close> that
  rebuilds the index row, and none \<^verbatim>\<open>AFTER INSERT\<close>. So a recipe has exactly one live
  index row, with the current text, from the statement that first indexes it and at all
  times after, for as long as it exists:

  \<^item> the seeding statement, run on the empty index, indexes every recipe present;
  \<^item> an update of the recipe indexes it;
  \<^item> any statement that goes through, changes the store and writes the row of the
    recipe indexes it: its update, and the insert or the delete of one of its reviews,
    by SQL or by \<open>addReview\<close>;
  \<^item> every statement that goes through (on recipes, reviews, associations or
    categories, or \<open>addReview\<close>) keeps an indexed recipe indexed, if the recipe is
    still there after it;
  \<^item> the insert of a recipe leaves the new recipe without an index row (the index holds
    rows of existing recipes only, which the foreign key of the index ensures);
  \<^item> a statement that does not write the row of a recipe leaves the index rows of that
    recipe as they were, so that a new recipe has no index row until the first statement
    that writes its row;
  \<^item> over a whole session: once the recipes with a given id are indexed, they are indexed
    in every later state of the session, as long as the id is present in all of them.
\<close>

theorem search_index_current_after:
  "(seed_search_index d now = Inr d' \<and> recipe_search_index d = [] \<and>
    distinct (map r_id (recipes d)) \<longrightarrow>
      (\<forall>r \<in> set (recipes d'). search_index_current d' r)) \<and>
   (update_recipe d rid vals now = Inr d' \<longrightarrow>
      (\<forall>r \<in> set (recipes d'). r_id r = rid \<longrightarrow> search_index_current d' r)) \<and>
   (run s now d = Inr d' \<and> d' \<noteq> d \<and> touches s d (r_id r) \<and>
    distinct (map r_id (recipes d)) \<and> r \<in> set (recipes d') \<longrightarrow>
      search_index_current d' r) \<and>
   (run s now d = Inr d' \<and> r \<in> set (recipes d') \<and>
    r_id r \<in> set (map r_id (recipes d)) \<and>
    (\<forall>r0 \<in> set (recipes d). r_id r0 = r_id r \<longrightarrow> search_index_current d r0) \<longrightarrow>
      search_index_current d' r) \<and>
   (insert_recipe d vals = Inr d' \<and>
    set (map si_recipe_id (recipe_search_index d)) \<subseteq> set (map r_id (recipes d)) \<longrightarrow>
      (\<exists>r. recipes d' = recipes d @ [r] \<and> r_id r \<notin> set (map r_id (recipes d)) \<and>
           search_texts d' (r_id r) = [] \<and> \<not> search_index_current d' r)) \<and>
   (run s now d = Inr d' \<and> \<not> touches s d k \<longrightarrow> search_texts d' k = search_texts d k) \<and>
   ((\<forall>r0 \<in> set (recipes d). r_id r0 = k \<longrightarrow> search_index_current d r0) \<and>
    (\<forall>x \<in> set (states ss d). k \<in> set (map r_id (recipes x))) \<longrightarrow>
      (\<forall>x \<in> set (states ss d). \<forall>r \<in> set (recipes x). r_id r = k \<longrightarrow>
         search_index_current x r))"
proof (intro conjI impI ballI)
  fix r
  assume a: "seed_search_index d now = Inr d' \<and> recipe_search_index d = [] \<and>
             distinct (map r_id (recipes d))"
    and r: "r \<in> set (recipes d')"
  from a obtain n rows where rows: "seed_rows n (recipes d) now = Inr rows"
    and idx: "recipe_search_index d' = rows" and rs: "recipes d' = recipes d"
    by (auto elim: seed_search_index_Inr)
  from a r rs have "filter (\<lambda>y. r_id y = r_id r) (recipes d) = [r]"
    by (simp add: filter_distinct_key)
  with seed_rows_texts [OF rows, of "r_id r"] show "search_index_current d' r"
    by (simp add: search_index_current_def search_texts_def idx)
next
  fix r
  assume "update_recipe d rid vals now = Inr d'" "r \<in> set (recipes d')" "r_id r = rid"
  then show "search_index_current d' r"
    by (rule update_recipe_current)
next
  assume "run s now d = Inr d' \<and> d' \<noteq> d \<and> touches s d (r_id r) \<and>
          distinct (map r_id (recipes d)) \<and> r \<in> set (recipes d')"
  then show "search_index_current d' r"
    by (auto intro: statement_indexes)
next
  assume "run s now d = Inr d' \<and> r \<in> set (recipes d') \<and>
          r_id r \<in> set (map r_id (recipes d)) \<and>
          (\<forall>r0 \<in> set (recipes d). r_id r0 = r_id r \<longrightarrow> search_index_current d r0)"
  then show "search_index_current d' r"
    by (auto intro: statement_keeps_current)
next
  assume a: "insert_recipe d vals = Inr d' \<and>
             set (map si_recipe_id (recipe_search_index d)) \<subseteq> set (map r_id (recipes d))"
  then obtain nid where rs: "recipes d' = recipes d @ [vals\<lparr>r_id := nid\<rparr>]"
    and fresh: "nid \<notin> set (map r_id (recipes d))"
    and idx: "recipe_search_index d' = recipe_search_index d"
    by (auto elim: insert_recipe_Inr)
  from a fresh have "\<forall>x \<in> set (recipe_search_index d). si_recipe_id x \<noteq> nid"
    by auto
  then have "search_texts d' nid = []"
    by (simp add: search_texts_def idx filter_empty_conv)
  then have "search_texts d' (r_id (vals\<lparr>r_id := nid\<rparr>)) = []"
    and "\<not> search_index_current d' (vals\<lparr>r_id := nid\<rparr>)"
    by (simp_all add: search_index_current_def)
  with rs fresh show "\<exists>r. recipes d' = recipes d @ [r] \<and> r_id r \<notin> set (map r_id (recipes d)) \<and>
           search_texts d' (r_id r) = [] \<and> \<not> search_index_current d' r"
    by (intro exI [of _ "vals\<lparr>r_id := nid\<rparr>"]) simp
next
  assume "run s now d = Inr d' \<and> \<not> touches s d k"
  then show "search_texts d' k = search_texts d k"
    by (auto intro: untouched_texts)
next
  fix x r
  assume "(\<forall>r0 \<in> set (recipes d). r_id r0 = k \<longrightarrow> search_index_current d r0) \<and>
          (\<forall>x \<in> set (states ss d). k \<in> set (map r_id (recipes x)))"
    and "x \<in> set (states ss d)" "r \<in> set (recipes x)" "r_id r = k"
  then show "search_index_current x r"
    using states_keep_current [of d k ss] by blast
qed

theorem search_index_current_after_witness:
  "\<exists>d0 d1 d2 d3 d4 d5.
     seed_search_index example_db 0 = Inr d0 \<and>
     recipe_search_index example_db = [] \<and>
     distinct (map r_id (recipes example_db)) \<and>
     example_recipe \<in> set (recipes d0) \<and> search_index_current d0 example_recipe \<and>
     insert_recipe d0 lemon_cake = Inr d1 \<and>
     set (map si_recipe_id (recipe_search_index d0)) \<subseteq> set (map r_id (recipes d0)) \<and>
     map r_id (recipes d1) = [1, 2] \<and>
     search_texts d1 2 = [] \<and>
     example_recipe \<in> set (recipes d1) \<and> search_index_current d1 example_recipe \<and>
     run (InsertRecipeCategory 2 5) 2 d1 = Inr d2 \<and>
     \<not> touches (InsertRecipeCategory 2 5) d1 2 \<and>
     search_texts d2 2 = [] \<and>
     run (AddReview ''lemon-cream-cheese-cake''
            \<lparr>rb_reviewer_name = Some ''Jennifer L.'', rb_reviewer_email = None,
             rb_rating = Some 5, rb_title = None, rb_comment = None\<rparr>) 3 d2 = Inr d3 \<and>
     d3 \<noteq> d2 \<and>
     touches (AddReview ''lemon-cream-cheese-cake''
            \<lparr>rb_reviewer_name = Some ''Jennifer L.'', rb_reviewer_email = None,
             rb_rating = Some 5, rb_title = None, rb_comment = None\<rparr>) d2 2 \<and>
     distinct (map r_id (recipes d2)) \<and>
     (\<exists>r \<in> set (recipes d3). r_id r = 2 \<and> search_index_current d3 r) \<and>
     length (search_texts d3 2) = 1 \<and>
     run (DeleteReview 1) 4 d3 = Inr d4 \<and>
     (\<exists>r \<in> set (recipes d4). r_id r = 2 \<and> search_index_current d4 r) \<and>
     update_recipe d4 2 (lemon_cake\<lparr>r_title := ''Lemon Cake''\<rparr>) 5 = Inr d5 \<and>
     (\<exists>r \<in> set (recipes d5). r_id r = 2 \<and> search_index_current d5 r) \<and>
     example_recipe \<in> set (recipes d5) \<and>
     list_all (\<lambda>x. 1 \<in> set (map r_id (recipes x)))
       (states
         [(InsertRecipe lemon_cake, 1), (InsertRecipeCategory 2 5, 2),
            (AddReview ''lemon-cream-cheese-cake''
               \<lparr>rb_reviewer_name = Some ''Jennifer L.'', rb_reviewer_email = None,
                rb_rating = Some 5, rb_title = None, rb_comment = None\<rparr>, 3),
            (DeleteReview 1, 4), (UpdateRecipe 2 (lemon_cake\<lparr>r_title := ''Lemon Cake''\<rparr>), 5),
            (DeleteRecipe 2, 6)] d0) \<and>
     example_recipe \<in> set (recipes (last (states
         [(InsertRecipe lemon_cake, 1), (InsertRecipeCategory 2 5, 2),
            (AddReview ''lemon-cream-cheese-cake''
               \<lparr>rb_reviewer_name = Some ''Jennifer L.'', rb_reviewer_email = None,
                rb_rating = Some 5, rb_title = None, rb_comment = None\<rparr>, 3),
            (DeleteReview 1, 4), (UpdateRecipe 2 (lemon_cake\<lparr>r_title := ''Lemon Cake''\<rparr>), 5),
            (DeleteRecipe 2, 6)] d0))) \<and>
     search_index_current (last (states
         [(InsertRecipe lemon_cake, 1), (InsertRecipeCategory 2 5, 2),
            (AddReview ''lemon-cream-cheese-cake''
               \<lparr>rb_reviewer_name = Some ''Jennifer L.'', rb_reviewer_email = None,
                rb_rating = Some 5, rb_title = None, rb_comment = None\<rparr>, 3),
            (DeleteReview 1, 4), (UpdateRecipe 2 (lemon_cake\<lparr>r_title := ''Lemon Cake''\<rparr>), 5),
            (DeleteRecipe 2, 6)] d0)) example_recipe"
proof -
  define ss where "ss =
         [(InsertRecipe lemon_cake, 1::nat), (InsertRecipeCategory 2 5, 2),
          (AddReview ''lemon-cream-cheese-cake''
             \<lparr>rb_reviewer_name = Some ''Jennifer L.'', rb_reviewer_email = None,
              rb_rating = Some 5, rb_title = None, rb_comment = None\<rparr>, 3),
          (DeleteReview 1, 4), (UpdateRecipe 2 (lemon_cake\<lparr>r_title := ''Lemon Cake''\<rparr>), 5),
          (DeleteRecipe 2, 6)]"
  define body where "body = \<lparr>rb_reviewer_name = Some ''Jennifer L.'', rb_reviewer_email = None,
             rb_rating = Some (5::rat), rb_title = None, rb_comment = None\<rparr>"
  define d0 where "d0 = projr (seed_search_index example_db 0)"
  define d1 where "d1 = projr (insert_recipe d0 lemon_cake)"
  define d2 where "d2 = projr (run (InsertRecipeCategory 2 5) 2 d1)"
  define d3 where "d3 = projr (run (AddReview ''lemon-cream-cheese-cake'' body) 3 d2)"
  define d4 where "d4 = projr (run (DeleteReview 1) 4 d3)"
  define d5 where "d5 = projr (update_recipe d4 2 (lemon_cake\<lparr>r_title := ''Lemon Cake''\<rparr>) 5)"
  note seed = search_index_current_after [THEN conjunct1, rule_format]
  note upd = search_index_current_after [THEN conjunct2, THEN conjunct1, rule_format]
  note first = search_index_current_after
    [THEN conjunct2, THEN conjunct2, THEN conjunct1, rule_format]
  note keep = search_index_current_after
    [THEN conjunct2, THEN conjunct2, THEN conjunct2, THEN conjunct1, rule_format]
  note creation = search_index_current_after
    [THEN conjunct2, THEN conjunct2, THEN conjunct2, THEN conjunct2, THEN conjunct1, rule_format]
  note untouched = search_index_current_after
    [THEN conjunct2, THEN conjunct2, THEN conjunct2, THEN conjunct2, THEN conjunct2,
     THEN conjunct1, rule_format]
  note always = search_index_current_after
    [THEN conjunct2, THEN conjunct2, THEN conjunct2, THEN conjunct2, THEN conjunct2,
     THEN conjunct2, rule_format]
  have "\<not> isl (seed_search_index example_db 0)"
    by code_simp
  then have e0: "seed_search_index example_db 0 = Inr d0"
    by (simp add: d0_def)
  have "\<not> isl (insert_recipe d0 lemon_cake)"
    unfolding d0_def by code_simp
  then have e1: "insert_recipe d0 lemon_cake = Inr d1"
    by (simp add: d1_def)
  have "\<not> isl (run (InsertRecipeCategory 2 5) 2 d1)"
    unfolding d1_def d0_def by code_simp
  then have e2: "run (InsertRecipeCategory 2 5) 2 d1 = Inr d2"
    by (simp add: d2_def)
  have e3: "run (AddReview ''lemon-cream-cheese-cake'' body) 3 d2 = Inr d3"
    by (simp add: d3_def)
  have "\<not> isl (run (DeleteReview 1) 4 d3)"
    unfolding d3_def d2_def d1_def d0_def body_def by code_simp
  then have e4: "run (DeleteReview 1) 4 d3 = Inr d4"
    by (simp add: d4_def)
  have "\<not> isl (update_recipe d4 2 (lemon_cake\<lparr>r_title := ''Lemon Cake''\<rparr>) 5)"
    unfolding d4_def d3_def d2_def d1_def d0_def body_def by code_simp
  then have e5: "update_recipe d4 2 (lemon_cake\<lparr>r_title := ''Lemon Cake''\<rparr>) 5 = Inr d5"
    by (simp add: d5_def)
  have h0: "recipe_search_index example_db = []" "distinct (map r_id (recipes example_db))"
    by code_simp+
  have m0: "example_recipe \<in> set (recipes d0)"
    and fk0: "set (map si_recipe_id (recipe_search_index d0)) \<subseteq> set (map r_id (recipes d0))"
    unfolding d0_def by code_simp+
  have m1: "example_recipe \<in> set (recipes d1)" "map r_id (recipes d1) = [1, 2]"
    unfolding d1_def d0_def by code_simp+
  have id1: "r_id example_recipe \<in> set (map r_id (recipes d0))"
    unfolding d0_def by code_simp
  have nt2: "\<not> touches (InsertRecipeCategory 2 5) d1 2"
    by simp
  have h3: "d3 \<noteq> d2" "touches (AddReview ''lemon-cream-cheese-cake'' body) d2 2"
    "distinct (map r_id (recipes d2))" "\<exists>r \<in> set (recipes d3). r_id r = 2"
    "2 \<in> set (map r_id (recipes d3))" "touches (DeleteReview 1) d3 2"
    unfolding d3_def d2_def d1_def d0_def body_def by code_simp+
  have h4: "\<exists>r \<in> set (recipes d4). r_id r = 2" "\<exists>r \<in> set (recipes d5). r_id r = 2"
    "example_recipe \<in> set (recipes d5)"
    unfolding d5_def d4_def d3_def d2_def d1_def d0_def body_def by code_simp+
  have c0: "search_index_current d0 example_recipe"
    by (rule seed [OF conjI [OF e0 conjI [OF h0]] m0])
  from e0 have rs0: "recipes d0 = recipes example_db"
    by (auto elim: seed_search_index_Inr)
  have all0: "\<forall>r0 \<in> set (recipes d0). r_id r0 = r_id example_recipe \<longrightarrow>
      search_index_current d0 r0"
    using seed [OF conjI [OF e0 conjI [OF h0]]] by blast
  have r1: "run (InsertRecipe lemon_cake) 1 d0 = Inr d1"
    using e1 by simp
  have c1: "search_index_current d1 example_recipe"
    by (rule keep [OF conjI [OF r1 conjI [OF m1(1) conjI [OF id1 all0]]]])
  from creation [OF conjI [OF e1 fk0]] obtain r where
    "recipes d1 = recipes d0 @ [r]" "search_texts d1 (r_id r) = []"
    by blast
  with m1(2) rs0 have t1: "search_texts d1 2 = []"
    by (auto simp: example_db_def example_recipe_def)
  from untouched [OF conjI [OF e2 nt2]] t1 have t2: "search_texts d2 2 = []"
    by simp
  from h3(4) obtain r3 where r3: "r3 \<in> set (recipes d3)" "r_id r3 = 2"
    by blast
  from h3(2) r3(2) have "touches (AddReview ''lemon-cream-cheese-cake'' body) d2 (r_id r3)"
    by simp
  from first [OF conjI [OF e3 conjI [OF h3(1) conjI [OF this conjI [OF h3(3) r3(1)]]]]]
  have c3: "search_index_current d3 r3" .
  with r3 have x3: "\<exists>r \<in> set (recipes d3). r_id r = 2 \<and> search_index_current d3 r"
    by blast
  from c3 r3(2) have n3: "length (search_texts d3 2) = 1"
    by (auto simp: search_index_current_def dest: arg_cong [where f = length])
  have all3: "\<forall>r0 \<in> set (recipes d3). r_id r0 = 2 \<longrightarrow> search_index_current d3 r0"
  proof (intro ballI impI)
    fix r0
    assume r0: "r0 \<in> set (recipes d3)" "r_id r0 = 2"
    with h3(2) have "touches (AddReview ''lemon-cream-cheese-cake'' body) d2 (r_id r0)"
      by simp
    from first [OF conjI [OF e3 conjI [OF h3(1) conjI [OF this conjI [OF h3(3) r0(1)]]]]]
    show "search_index_current d3 r0" .
  qed
  from h4(1) obtain r4 where r4: "r4 \<in> set (recipes d4)" "r_id r4 = 2"
    by blast
  with h3(5) all3 have "r_id r4 \<in> set (map r_id (recipes d3))"
    "\<forall>r0 \<in> set (recipes d3). r_id r0 = r_id r4 \<longrightarrow> search_index_current d3 r0"
    by simp_all
  from keep [OF conjI [OF e4 conjI [OF r4(1) conjI [OF this]]]]
  have "search_index_current d4 r4" .
  with r4 have x4: "\<exists>r \<in> set (recipes d4). r_id r = 2 \<and> search_index_current d4 r"
    by blast
  from h4(2) obtain r5 where r5: "r5 \<in> set (recipes d5)" "r_id r5 = 2"
    by blast
  from upd [OF e5 r5] r5 have x5: "\<exists>r \<in> set (recipes d5). r_id r = 2 \<and> search_index_current d5 r"
    by blast
  have tr: "list_all (\<lambda>x. 1 \<in> set (map r_id (recipes x))) (states ss d0)"
    "example_recipe \<in> set (recipes (last (states ss d0)))"
    "last (states ss d0) \<in> set (states ss d0)"
    unfolding ss_def d0_def by code_simp+
  have one: "r_id example_recipe = 1"
    by (simp add: example_recipe_def)
  from all0 one have all1: "\<forall>r0 \<in> set (recipes d0). r_id r0 = 1 \<longrightarrow> search_index_current d0 r0"
    by simp
  from tr(1) have "\<forall>x \<in> set (states ss d0). 1 \<in> set (map r_id (recipes x))"
    by (simp only: list_all_iff)
  from always [OF conjI [OF all1 this] tr(3) tr(2) one]
  have c6: "search_index_current (last (states ss d0)) example_recipe" .
  from e0 h0 m0 c0 e1 fk0 m1(2) t1 m1(1) c1 e2 nt2 t2 e3 h3(1,2,3) x3 n3 e4 x4 e5 x5 h4(3)
    tr(1,2) c6
  show ?thesis
    unfolding body_def ss_def by (intro exI conjI)
qed

text \<open>
  The window in which the claim as written fails: after the seeding, the insert of a second
  recipe goes through, and the new recipe has no index row.
\<close>

theorem new_recipe_has_no_index_row:
  "\<exists>d0 d1.
     seed_search_index example_db 0 = Inr d0 \<and>
     search_texts d0 1 = [example_search_text] \<and>
     insert_recipe d0 lemon_cake = Inr d1 \<and>
     map r_id (recipes d1) = [1, 2] \<and>
     search_texts d1 2 = [] \<and>
     (\<exists>r \<in> set (recipes d1). r_id r = 2 \<and> \<not> search_index_current d1 r)"
proof -
  define d0 where "d0 = projr (seed_search_index example_db 0)"
  define d1 where "d1 = projr (insert_recipe d0 lemon_cake)"
  have "\<not> isl (seed_search_index example_db 0)"
    by code_simp
  then have e0: "seed_search_index example_db 0 = Inr d0"
    by (simp add: d0_def)
  have "\<not> isl (insert_recipe d0 lemon_cake)"
    unfolding d0_def by code_simp
  then have e1: "insert_recipe d0 lemon_cake = Inr d1"
    by (simp add: d1_def)
  have v: "search_texts d0 1 = [example_search_text]"
    "map r_id (recipes d1) = [1, 2]"
    "search_texts d1 2 = []"
    "\<exists>r \<in> set (recipes d1). r_id r = 2 \<and> \<not> search_index_current d1 r"
    unfolding d1_def d0_def by code_simp+
  from e0 e1 v show ?thesis
    by (intro exI conjI)
qed

end
